theory Spec2Isabelle
  imports Main
begin

section \<open>Python values shared by both programs\<close>

text \<open>
  Exceptions are values. Only subclasses of Python's \<open>Exception\<close> are modelled: they are
  what the Selenium driver, a dictionary lookup and a list index raise, and what the
  handlers \<open>except Exception\<close> of the source catch. The string is the message \<open>str(e)\<close>
  prints; a \<open>KeyError\<close> holds the missing key.
\<close>

datatype exn =
    ElementClickInterceptedException string
  | TimeoutException string
  | KeyError string
  | IndexError string
  | WebDriverException string

text \<open>
  \<open>repr\<close> of a string, which is what \<open>str\<close> of a \<open>KeyError\<close> prints for its key: double
  quotes when the string has a single quote and no double quote, single quotes
  otherwise, with the backslash, the enclosing quote, newline, carriage return and tab
  escaped. The hexadecimal escapes of the other control characters are not modelled.
\<close>

definition escape :: "bool \<Rightarrow> char \<Rightarrow> string" where
  "escape single c =
     (if c = CHR 0x5C then [CHR 0x5C, CHR 0x5C]
      else if c = CHR 0x27 \<and> single then [CHR 0x5C, CHR 0x27]
      else if c = CHR 0x0A then [CHR 0x5C, CHR ''n'']
      else if c = CHR 0x0D then [CHR 0x5C, CHR ''r'']
      else if c = CHR 0x09 then [CHR 0x5C, CHR ''t'']
      else [c])"

definition repr :: "string \<Rightarrow> string" where
  "repr s =
     (if CHR 0x27 \<in> set s \<and> CHR 0x22 \<notin> set s
      then [CHR 0x22] @ concat (map (escape False) s) @ [CHR 0x22]
      else [CHR 0x27] @ concat (map (escape True) s) @ [CHR 0x27])"

fun str :: "exn \<Rightarrow> string" where
  "str (ElementClickInterceptedException m) = m"
| "str (TimeoutException m) = m"
| "str (KeyError k) = repr k"
| "str (IndexError m) = m"
| "str (WebDriverException m) = m"

fun is_ElementClickIntercepted :: "exn \<Rightarrow> bool" where
  "is_ElementClickIntercepted (ElementClickInterceptedException m) = True"
| "is_ElementClickIntercepted e = False"

fun is_Timeout :: "exn \<Rightarrow> bool" where
  "is_Timeout (TimeoutException m) = True"
| "is_Timeout e = False"

text \<open>The module-level \<open>logger\<close>: a line is a level and a message, appended in order.\<close>

datatype level = INFO | WARNING | ERROR

type_synonym log_entry = "level \<times> string"

text \<open>Decimal text of a number, for the f-strings that print one.\<close>

fun digits :: "nat \<Rightarrow> string" where
  "digits n = (if n < 10 then [''0123456789'' ! n]
               else digits (n div 10) @ [''0123456789'' ! (n mod 10)])"

declare digits.simps [simp del]

definition str_int :: "int \<Rightarrow> string" where
  "str_int i = (if i < 0 then CHR ''-'' # digits (nat (- i)) else digits (nat i))"

section \<open>Node-count-automatic-k8s-resources.py\<close>

text \<open>
  The cluster-orchestration client is external. Its calls act on a cluster state \<open>'c\<close>
  and either return or raise; \<open>ApiException\<close> is the one class the source handles.
  The manifests are literal dictionaries in the source; the only computed field is the
  replica count of the Chrome deployment.
\<close>

datatype k8s_exn = ApiException string | OtherException string

datatype manifest =
    chrome_deployment int
  | chrome_service
  | chrome_hpa
  | selenium_test_deployment

record 'c kube_client =
  load_incluster_config :: "'c \<Rightarrow> k8s_exn option \<times> 'c"
  load_kube_config :: "'c \<Rightarrow> k8s_exn option \<times> 'c"
  create_namespaced_deployment :: "string \<Rightarrow> manifest \<Rightarrow> 'c \<Rightarrow> k8s_exn option \<times> 'c"
  create_namespaced_service :: "string \<Rightarrow> manifest \<Rightarrow> 'c \<Rightarrow> k8s_exn option \<times> 'c"
  create_namespaced_horizontal_pod_autoscaler :: "string \<Rightarrow> manifest \<Rightarrow> 'c \<Rightarrow> k8s_exn option \<times> 'c"

text \<open>
  The controller object together with what its methods change: the cluster behind the
  client, the lines its logger wrote, and the create calls issued so far, each with the
  exception it raised, if any.
\<close>

record 'c KubernetesTestController =
  node_count :: int
  cluster :: 'c
  logged :: "log_entry list"
  api_calls :: "(manifest \<times> k8s_exn option) list"

definition k8s_str :: "k8s_exn \<Rightarrow> string" where
  "k8s_str e = (case e of ApiException m \<Rightarrow> m | OtherException m \<Rightarrow> m)"

definition k8s_log :: "level \<Rightarrow> string \<Rightarrow> 'c KubernetesTestController \<Rightarrow> 'c KubernetesTestController" where
  "k8s_log lv msg self = self\<lparr>logged := logged self @ [(lv, msg)]\<rparr>"

text \<open>
  \<open>__init__\<close>: the clamp, then the in-cluster configuration with a bare \<open>except\<close> that
  falls back to the local one; an exception of the fallback leaves no object.
\<close>

definition KubernetesTestController_init ::
  "'c kube_client \<Rightarrow> int \<Rightarrow> 'c \<Rightarrow> k8s_exn + 'c KubernetesTestController" where
  "KubernetesTestController_init k n c =
     (let self = \<lparr>node_count = max 1 (min n 5), cluster = c, logged = [], api_calls = []\<rparr> in
      case load_incluster_config k (cluster self) of
        (None, c1) \<Rightarrow> Inr (k8s_log INFO ''Using in-cluster Kubernetes config'' (self\<lparr>cluster := c1\<rparr>))
      | (Some _, c1) \<Rightarrow>
          (let self1 = k8s_log INFO ''Falling back to local kubeconfig'' (self\<lparr>cluster := c1\<rparr>) in
           case load_kube_config k (cluster self1) of
             (None, c2) \<Rightarrow> Inr (self1\<lparr>cluster := c2\<rparr>)
           | (Some e, c2) \<Rightarrow> Inl e))"

text \<open>
  How a method of the controller ends: it returns, \<open>sys.exit(status)\<close> ends the process,
  or an exception nobody handles leaves it.
\<close>

datatype ending = Returned | SystemExit int | Uncaught k8s_exn

text \<open>One create call: issued once, recorded with its outcome.\<close>

definition create ::
  "(string \<Rightarrow> manifest \<Rightarrow> 'c \<Rightarrow> k8s_exn option \<times> 'c) \<Rightarrow> manifest \<Rightarrow>
   'c KubernetesTestController \<Rightarrow> k8s_exn option \<times> 'c KubernetesTestController" where
  "create api body self =
     (case api ''default'' body (cluster self) of
        (r, c) \<Rightarrow> (r, self\<lparr>cluster := c, api_calls := api_calls self @ [(body, r)]\<rparr>))"

text \<open>The handler of both deploy methods: \<open>ApiException\<close> is logged and exits with 1.\<close>

definition on_exception ::
  "string \<Rightarrow> k8s_exn \<Rightarrow> 'c KubernetesTestController \<Rightarrow> ending \<times> 'c KubernetesTestController" where
  "on_exception what e self =
     (case e of
        ApiException m \<Rightarrow> (SystemExit 1, k8s_log ERROR (what @ k8s_str e) self)
      | OtherException m \<Rightarrow> (Uncaught e, self))"

definition deploy_chrome ::
  "'c kube_client \<Rightarrow> 'c KubernetesTestController \<Rightarrow> ending \<times> 'c KubernetesTestController" where
  "deploy_chrome k self =
     (let s1 = k8s_log INFO (''Creating Chrome deployment with '' @ str_int (node_count self) @ '' replicas'') self in
      case create (create_namespaced_deployment k) (chrome_deployment (node_count self)) s1 of
        (Some e, s2) \<Rightarrow> on_exception ''Failed to create Chrome resources: '' e s2
      | (None, s2) \<Rightarrow>
     (let s3 = k8s_log INFO ''Creating Chrome service'' s2 in
      case create (create_namespaced_service k) chrome_service s3 of
        (Some e, s4) \<Rightarrow> on_exception ''Failed to create Chrome resources: '' e s4
      | (None, s4) \<Rightarrow>
     (let s5 = k8s_log INFO ''Creating Chrome HPA'' s4 in
      case create (create_namespaced_horizontal_pod_autoscaler k) chrome_hpa s5 of
        (Some e, s6) \<Rightarrow> on_exception ''Failed to create Chrome resources: '' e s6
      | (None, s6) \<Rightarrow> (Returned, s6))))"

definition deploy_selenium_test ::
  "'c kube_client \<Rightarrow> 'c KubernetesTestController \<Rightarrow> ending \<times> 'c KubernetesTestController" where
  "deploy_selenium_test k self =
     (let s1 = k8s_log INFO ''Creating Selenium test deployment'' self in
      case create (create_namespaced_deployment k) selenium_test_deployment s1 of
        (Some e, s2) \<Rightarrow> on_exception ''Failed to create Selenium Test Deployment: '' e s2
      | (None, s2) \<Rightarrow> (Returned, s2))"

definition deploy_resources ::
  "'c kube_client \<Rightarrow> 'c KubernetesTestController \<Rightarrow> ending \<times> 'c KubernetesTestController" where
  "deploy_resources k self =
     (case deploy_chrome k self of
        (Returned, s1) \<Rightarrow> deploy_selenium_test k s1
      | (r, s1) \<Rightarrow> (r, s1))"

text \<open>A client for concrete runs: every call succeeds but those listed in \<open>failing\<close>.\<close>

definition toy_client :: "(manifest \<times> k8s_exn) list \<Rightarrow> manifest list kube_client" where
  "toy_client failing =
     \<lparr>load_incluster_config = (\<lambda>c. (None, c)),
      load_kube_config = (\<lambda>c. (None, c)),
      create_namespaced_deployment = (\<lambda>ns body c.
         case map_of failing body of Some e \<Rightarrow> (Some e, c) | None \<Rightarrow> (None, c @ [body])),
      create_namespaced_service = (\<lambda>ns body c.
         case map_of failing body of Some e \<Rightarrow> (Some e, c) | None \<Rightarrow> (None, c @ [body])),
      create_namespaced_horizontal_pod_autoscaler = (\<lambda>ns body c.
         case map_of failing body of Some e \<Rightarrow> (Some e, c) | None \<Rightarrow> (None, c @ [body]))\<rparr>"

section \<open>Insider-test-success.py\<close>

subsection \<open>State, actions and the remote browser\<close>

text \<open>
  What the page objects act on: the remote browser behind the driver (the type \<open>'b\<close>)
  and the lines the logger wrote. A method is an action on that state which returns a
  value or raises. \<open>time.sleep\<close> only delays and changes nothing here, so it is left out.
\<close>

record 'b state =
  remote :: 'b
  log :: "log_entry list"

type_synonym ('a, 'b) action = "'b state \<Rightarrow> (exn + 'a) \<times> 'b state"

definition ret :: "'a \<Rightarrow> ('a, 'b) action" where
  "ret x s = (Inr x, s)"

definition raise :: "exn \<Rightarrow> ('a, 'b) action" where
  "raise e s = (Inl e, s)"

definition and_then :: "('a, 'b) action \<Rightarrow> ('a \<Rightarrow> ('c, 'b) action) \<Rightarrow> ('c, 'b) action" where
  "and_then m f s = (case m s of (Inl e, s') \<Rightarrow> (Inl e, s') | (Inr x, s') \<Rightarrow> f x s')"

definition try_except :: "('a, 'b) action \<Rightarrow> (exn \<Rightarrow> ('a, 'b) action) \<Rightarrow> ('a, 'b) action" where
  "try_except m h s = (case m s of (Inl e, s') \<Rightarrow> h e s' | (Inr x, s') \<Rightarrow> (Inr x, s'))"

definition logger :: "level \<Rightarrow> string \<Rightarrow> (unit, 'b) action" where
  "logger lv msg s = (Inr (), s\<lparr>log := log s @ [(lv, msg)]\<rparr>)"

definition call :: "('b \<Rightarrow> (exn + 'a) \<times> 'b) \<Rightarrow> ('a, 'b) action" where
  "call f s = (case f (remote s) of (r, b) \<Rightarrow> (r, s\<lparr>remote := b\<rparr>))"

text \<open>Dictionary lookup \<open>d[k]\<close>, which raises \<open>KeyError\<close> on a missing key.\<close>

definition getitem :: "(string \<times> 'v) list \<Rightarrow> string \<Rightarrow> ('v, 'b) action" where
  "getitem d k = (case map_of d k of None \<Rightarrow> raise (KeyError k) | Some v \<Rightarrow> ret v)"

text \<open>
  The remote browser-control driver is external: a record of its calls, each acting on
  the remote browser. \<open>until_element\<close> and \<open>until_true\<close> are \<open>WebDriverWait(driver,
  timeout).until(condition)\<close>, which returns the condition's truthy value or raises
  \<open>TimeoutException\<close>; it never returns a falsy value. \<open>more_than_one_window\<close> is the
  condition \<open>lambda d: len(d.window_handles) > 1\<close>.
\<close>

type_synonym element = string
type_synonym handle = string

datatype By = CLASS_NAME | XPATH | CSS_SELECTOR

type_synonym locator = "By \<times> string"

datatype element_condition =
    presence_of_element_located locator
  | element_to_be_clickable locator
  | visibility_of_element_located locator

datatype bool_condition = url_contains string | more_than_one_window

record 'b webdriver =
  Remote :: "bool \<Rightarrow> exn + 'b"
  drv_get :: "string \<Rightarrow> 'b \<Rightarrow> (exn + unit) \<times> 'b"
  drv_click :: "element \<Rightarrow> 'b \<Rightarrow> (exn + unit) \<times> 'b"
  execute_script :: "string \<Rightarrow> element \<Rightarrow> 'b \<Rightarrow> (exn + unit) \<times> 'b"
  find_elements :: "locator \<Rightarrow> 'b \<Rightarrow> (exn + element list) \<times> 'b"
  current_window_handle :: "'b \<Rightarrow> (exn + handle) \<times> 'b"
  window_handles :: "'b \<Rightarrow> (exn + handle list) \<times> 'b"
  switch_to_window :: "handle \<Rightarrow> 'b \<Rightarrow> (exn + unit) \<times> 'b"
  drv_close :: "'b \<Rightarrow> (exn + unit) \<times> 'b"
  drv_quit :: "'b \<Rightarrow> (exn + unit) \<times> 'b"
  until_element :: "element_condition \<Rightarrow> int \<Rightarrow> 'b \<Rightarrow> (exn + element) \<times> 'b"
  until_true :: "bool_condition \<Rightarrow> int \<Rightarrow> 'b \<Rightarrow> (exn + unit) \<times> 'b"

subsection \<open>BasePage\<close>

record 'b BasePage =
  driver :: "'b webdriver"
  timeout :: int

definition BasePage_init :: "'b webdriver \<Rightarrow> 'b BasePage" where
  "BasePage_init d = \<lparr>driver = d, timeout = 20\<rparr>"

text \<open>\<open>timeout or self.timeout\<close>: \<open>None\<close> and 0 are both falsy.\<close>

definition timeout_or :: "int option \<Rightarrow> int \<Rightarrow> int" where
  "timeout_or t dflt = (case t of None \<Rightarrow> dflt | Some n \<Rightarrow> if n = 0 then dflt else n)"

definition find_element :: "'b BasePage \<Rightarrow> locator \<Rightarrow> int option \<Rightarrow> (element, 'b) action" where
  "find_element self loc t =
     call (until_element (driver self) (presence_of_element_located loc) (timeout_or t (timeout self)))"

definition find_clickable :: "'b BasePage \<Rightarrow> locator \<Rightarrow> int option \<Rightarrow> (element, 'b) action" where
  "find_clickable self loc t =
     call (until_element (driver self) (element_to_be_clickable loc) (timeout_or t (timeout self)))"

definition scroll_into_view :: string where
  "scroll_into_view = ''arguments[0].scrollIntoView({block: 'center'});''"

text \<open>
  \<open>safe_click\<close>, without its \<open>retry_delay\<close>, which only feeds \<open>time.sleep\<close>. The loop runs over \<open>range(retry_attempts)\<close>; each round is the body of
  the \<open>for\<close>. An intercepted click is logged and the element scrolled into view, in the
  handler, so an exception of the script leaves the method. Any other exception is
  logged and raised again on the last attempt only. A handler that does not raise falls
  through to the next round, here the call on the rest of the range. After the loop:
  \<open>return False\<close>.
\<close>

fun safe_click_loop :: "'b BasePage \<Rightarrow> element \<Rightarrow> int \<Rightarrow> nat list \<Rightarrow> (bool, 'b) action" where
  "safe_click_loop self element retry_attempts [] = ret False"
| "safe_click_loop self element retry_attempts (attempt # rest) =
     try_except
       (and_then (call (drv_click (driver self) element)) (\<lambda>_. ret True))
       (\<lambda>e. if is_ElementClickIntercepted e then
               and_then (logger WARNING (''Click intercepted, attempt '' @ str_int (int attempt + 1)
                                         @ ''/'' @ str_int retry_attempts)) (\<lambda>_.
               and_then (call (execute_script (driver self) scroll_into_view element)) (\<lambda>_.
               safe_click_loop self element retry_attempts rest))
             else
               and_then (logger ERROR (''Click failed: '' @ str e @ '', attempt ''
                                       @ str_int (int attempt + 1) @ ''/'' @ str_int retry_attempts)) (\<lambda>_.
               if int attempt = retry_attempts - 1 then raise e
               else safe_click_loop self element retry_attempts rest))"

definition safe_click :: "'b BasePage \<Rightarrow> element \<Rightarrow> int \<Rightarrow> (bool, 'b) action" where
  "safe_click self element retry_attempts =
     safe_click_loop self element retry_attempts [0..<nat retry_attempts]"

definition is_element_visible :: "'b BasePage \<Rightarrow> locator \<Rightarrow> int option \<Rightarrow> (bool, 'b) action" where
  "is_element_visible self loc t =
     try_except
       (and_then (call (until_element (driver self) (visibility_of_element_located loc)
                          (timeout_or t (timeout self)))) (\<lambda>_. ret True))
       (\<lambda>e. if is_Timeout e then ret False else raise e)"

definition wait_for_url_contains :: "'b BasePage \<Rightarrow> string \<Rightarrow> int option \<Rightarrow> (bool, 'b) action" where
  "wait_for_url_contains self partial_url t =
     try_except
       (and_then (call (until_true (driver self) (url_contains partial_url)
                          (timeout_or t (timeout self)))) (\<lambda>_. ret True))
       (\<lambda>e. if is_Timeout e then ret False else raise e)"

subsection \<open>HomePage\<close>

text \<open>
  The methods a test step calls. \<open>is_company_dropdown_expanded\<close>, \<open>get_company_submenu_items\<close>
  and \<open>verify_career_blocks_displayed\<close> are called by no step and are not modelled.
\<close>

definition HomePage_URL :: string where
  "HomePage_URL = ''https://useinsider.com/''"

definition HomePage_LOCATORS :: "(string \<times> locator) list" where
  "HomePage_LOCATORS =
     [(''logo'', (CLASS_NAME, ''navbar-brand'')),
      (''company_dropdown'', (XPATH, ''/html/body/nav/div[2]/div/ul[1]/li[6]/a'')),
      (''careers_link'', (XPATH, ''//a[contains(text(), 'Careers')]'')),
      (''menu_items'', (CSS_SELECTOR, ''.nav-link'')),
      (''company_submenu'', (CSS_SELECTOR, ''#navbarDropdownMenuLink + .dropdown-menu'')),
      (''locations_block'', (XPATH, ''//h3[contains(text(), 'Our Locations')]'')),
      (''teams_block'', (XPATH, ''//h3[contains(text(), 'Find your calling')]'')),
      (''life_at_insider_block'', (XPATH, ''//h2[contains(text(), 'Life at Insider')]''))]"

definition HomePage_init :: "'b webdriver \<Rightarrow> 'b BasePage" where
  "HomePage_init d = (BasePage_init d)\<lparr>driver := d\<rparr>"

text \<open>
  \<open>is_loaded\<close> catches \<open>TimeoutException\<close> only (which \<open>is_element_visible\<close> has already
  turned into false), so another exception of the wait leaves it.
\<close>

definition HomePage_is_loaded :: "'b BasePage \<Rightarrow> (bool, 'b) action" where
  "HomePage_is_loaded self =
     try_except
       (and_then (getitem HomePage_LOCATORS ''logo'') (\<lambda>loc.
        and_then (is_element_visible self loc None) (\<lambda>v.
        ret (list_all (\<lambda>x. x) [v]))))
       (\<lambda>e. if is_Timeout e then
               and_then (logger ERROR (''Homepage failed to load: '' @ str e)) (\<lambda>_. ret False)
             else raise e)"

definition HomePage_navigate :: "'b BasePage \<Rightarrow> (bool, 'b) action" where
  "HomePage_navigate self =
     try_except
       (and_then (call (drv_get (driver self) HomePage_URL)) (\<lambda>_.
        HomePage_is_loaded self))
       (\<lambda>e. and_then (logger ERROR (''Navigation to homepage failed: '' @ str e)) (\<lambda>_. ret False))"

text \<open>The result of \<open>safe_click\<close> is dropped: the method returns true unless something raised.\<close>

definition click_navigation_item :: "'b BasePage \<Rightarrow> string \<Rightarrow> (bool, 'b) action" where
  "click_navigation_item self locator_key =
     try_except
       (and_then (getitem HomePage_LOCATORS locator_key) (\<lambda>loc.
        and_then (find_clickable self loc None) (\<lambda>element.
        and_then (safe_click self element 10) (\<lambda>_.
        ret True))))
       (\<lambda>e. and_then (logger ERROR (''Failed to click '' @ locator_key @ '': '' @ str e)) (\<lambda>_. ret False))"

definition click_company_menu :: "'b BasePage \<Rightarrow> (bool, 'b) action" where
  "click_company_menu self = click_navigation_item self ''company_dropdown''"

definition click_careers_menu :: "'b BasePage \<Rightarrow> (bool, 'b) action" where
  "click_careers_menu self = click_navigation_item self ''careers_link''"

subsection \<open>CareersPage\<close>

definition CareersPage_URL :: string where
  "CareersPage_URL = ''https://useinsider.com/careers/quality-assurance/''"

definition CareersPage_LOCATORS :: "(string \<times> locator) list" where
  "CareersPage_LOCATORS =
     [(''cookie_accept'', (XPATH, ''//*[@id='wt-cli-accept-all-btn']'')),
      (''see_all_qa_jobs'', (XPATH, ''//a[contains(text(), 'See all QA jobs')]'')),
      (''location_filter'', (XPATH, ''//span[contains(@id, 'select2-filter-by-location-container')]'')),
      (''istanbul_option'', (XPATH, ''//li[contains(text(), 'Istanbul, Turkey')]'')),
      (''department_filter'', (XPATH, ''//span[contains(@id, 'select2-filter-by-department-container')]'')),
      (''qa_option'', (XPATH, ''//li[contains(text(), 'Quality Assurance')]'')),
      (''jobs_list'', (XPATH, ''/html/body/section[3]/div/div/div[2]/div/div/span'')),
      (''view_role'', (CSS_SELECTOR, ''.position-list-item-wrapper .btn.btn-navy''))]"

definition CareersPage_navigate :: "'b BasePage \<Rightarrow> (bool, 'b) action" where
  "CareersPage_navigate self =
     try_except
       (and_then (call (drv_get (driver self) CareersPage_URL)) (\<lambda>_. ret True))
       (\<lambda>e. and_then (logger ERROR (''Failed to navigate to careers page: '' @ str e)) (\<lambda>_. ret False))"

definition accept_cookies :: "'b BasePage \<Rightarrow> (bool, 'b) action" where
  "accept_cookies self =
     try_except
       (and_then (getitem CareersPage_LOCATORS ''cookie_accept'') (\<lambda>loc.
        and_then (find_clickable self loc None) (\<lambda>button.
        safe_click self button 10)))
       (\<lambda>e. and_then (logger ERROR (''Failed to accept cookies: '' @ str e)) (\<lambda>_. ret False))"

definition click_see_all_qa_jobs :: "'b BasePage \<Rightarrow> (bool, 'b) action" where
  "click_see_all_qa_jobs self =
     try_except
       (and_then (getitem CareersPage_LOCATORS ''see_all_qa_jobs'') (\<lambda>loc.
        and_then (find_clickable self loc None) (\<lambda>button.
        safe_click self button 10)))
       (\<lambda>e. and_then (logger ERROR (''Failed to click 'See all QA jobs': '' @ str e)) (\<lambda>_. ret False))"

definition select_location :: "'b BasePage \<Rightarrow> (bool, 'b) action" where
  "select_location self =
     try_except
       (and_then (getitem CareersPage_LOCATORS ''location_filter'') (\<lambda>loc.
        and_then (find_clickable self loc None) (\<lambda>filter_element.
        and_then (safe_click self filter_element 10) (\<lambda>_.
        and_then (getitem CareersPage_LOCATORS ''istanbul_option'') (\<lambda>loc2.
        and_then (find_clickable self loc2 None) (\<lambda>option_element.
        and_then (safe_click self option_element 10) (\<lambda>_.
        ret True)))))))
       (\<lambda>e. and_then (logger ERROR (''Failed to select location: '' @ str e)) (\<lambda>_. ret False))"

definition select_department :: "'b BasePage \<Rightarrow> (bool, 'b) action" where
  "select_department self =
     try_except
       (and_then (getitem CareersPage_LOCATORS ''department_filter'') (\<lambda>loc.
        and_then (find_clickable self loc None) (\<lambda>filter_element.
        and_then (safe_click self filter_element 10) (\<lambda>_.
        and_then (getitem CareersPage_LOCATORS ''qa_option'') (\<lambda>loc2.
        and_then (find_clickable self loc2 None) (\<lambda>option_element.
        and_then (safe_click self option_element 10) (\<lambda>_.
        ret True)))))))
       (\<lambda>e. and_then (logger ERROR (''Failed to select department: '' @ str e)) (\<lambda>_. ret False))"

text \<open>
  \<open>view_first_role\<close>, statement by statement. \<open>buttons[0]\<close> is read in the branch where
  the list is not empty; the first element of the comprehension over the handles raises
  \<open>IndexError\<close> when every handle is the original one. The wait for a second window
  returns only a truthy value, so the \<open>return False\<close> under it is never taken.
\<close>

definition view_first_role :: "'b BasePage \<Rightarrow> (bool, 'b) action" where
  "view_first_role self =
     try_except
       (and_then (getitem CareersPage_LOCATORS ''view_role'') (\<lambda>loc.
        and_then (call (find_elements (driver self) loc)) (\<lambda>buttons.
        case buttons of
          [] \<Rightarrow> and_then (logger ERROR ''No 'View Role' buttons found'') (\<lambda>_. ret False)
        | button # _ \<Rightarrow>
        and_then (call (current_window_handle (driver self))) (\<lambda>original_window.
        and_then (call (window_handles (driver self))) (\<lambda>handles.
        if length handles \<noteq> 1 then
          and_then (logger WARNING ''Multiple tabs open before clicking View Role'') (\<lambda>_. ret False)
        else
        and_then (safe_click self button 10) (\<lambda>_.
        and_then (call (until_true (driver self) more_than_one_window (timeout self))) (\<lambda>_.
        and_then (call (window_handles (driver self))) (\<lambda>handles2.
        case filter (\<lambda>w. w \<noteq> original_window) handles2 of
          [] \<Rightarrow> raise (IndexError ''list index out of range'')
        | new_window # _ \<Rightarrow>
        and_then (call (switch_to_window (driver self) new_window)) (\<lambda>_.
        and_then (wait_for_url_contains self ''jobs.lever.co'' None) (\<lambda>found.
        if \<not> found then ret False
        else
        and_then (logger INFO ''Successfully navigated to Lever Application form'') (\<lambda>_.
        and_then (call (drv_close (driver self))) (\<lambda>_.
        and_then (call (switch_to_window (driver self) original_window)) (\<lambda>_.
        ret True)))))))))))))
       (\<lambda>e. and_then (logger ERROR (''Failed to view role: '' @ str e)) (\<lambda>_. ret False))"

subsection \<open>InsiderWebsiteTest\<close>

datatype TestResult = PASSED | FAILED | SKIPPED

fun TestResult_name :: "TestResult \<Rightarrow> string" where
  "TestResult_name PASSED = ''PASSED''"
| "TestResult_name FAILED = ''FAILED''"
| "TestResult_name SKIPPED = ''SKIPPED''"

record 'b TestStep =
  step_name :: string
  step_function :: "(bool, 'b) action"
  step_description :: string

text \<open>
  What the test object does beyond the page objects' state, in the order it does it: the
  session it opens, each step it starts, each assignment to \<open>test_results\<close>, the call of
  \<open>driver.quit\<close>.
\<close>

datatype event =
    SessionCreated
  | StepStarted string
  | VerdictWritten string TestResult
  | SessionQuit

text \<open>
  \<open>test_results\<close> is a \<open>dict\<close>: it keeps insertion order, and an assignment to a key
  already there replaces the value in place.
\<close>

fun setitem :: "(string \<times> 'v) list \<Rightarrow> string \<Rightarrow> 'v \<Rightarrow> (string \<times> 'v) list" where
  "setitem [] k v = [(k, v)]"
| "setitem ((k', v') # d) k v = (if k' = k then (k, v) # d else (k', v') # setitem d k v)"

record 'b InsiderWebsiteTest =
  world :: "'b state"
  home_page :: "'b BasePage"
  careers_page :: "'b BasePage"
  test_results :: "(string \<times> TestResult) list"
  events :: "event list"

text \<open>
  \<open>WebDriverFactory.create_chrome_driver\<close> builds the options from \<open>headless\<close> and hands
  them to \<open>webdriver.Remote\<close>, which opens the session or raises.
\<close>

definition create_chrome_driver :: "'b webdriver \<Rightarrow> bool \<Rightarrow> exn + 'b" where
  "create_chrome_driver d headless = Remote d headless"

text \<open>
  \<open>__init__\<close>. The object's \<open>driver\<close> is the one both page objects hold, so it is read from
  \<open>home_page\<close> where \<open>teardown\<close> needs it.
\<close>

definition InsiderWebsiteTest_init :: "'b webdriver \<Rightarrow> bool \<Rightarrow> exn + 'b InsiderWebsiteTest" where
  "InsiderWebsiteTest_init d headless =
     (case create_chrome_driver d headless of
        Inl e \<Rightarrow> Inl e
      | Inr b \<Rightarrow> Inr \<lparr>world = \<lparr>remote = b, log = []\<rparr>,
                      home_page = HomePage_init d,
                      careers_page = BasePage_init d,
                      test_results = [],
                      events = [SessionCreated]\<rparr>)"

definition info :: "string \<Rightarrow> 'b InsiderWebsiteTest \<Rightarrow> 'b InsiderWebsiteTest" where
  "info msg self = self\<lparr>world := snd (logger INFO msg (world self))\<rparr>"

definition error :: "string \<Rightarrow> 'b InsiderWebsiteTest \<Rightarrow> 'b InsiderWebsiteTest" where
  "error msg self = self\<lparr>world := snd (logger ERROR msg (world self))\<rparr>"

definition run_test_step :: "'b TestStep \<Rightarrow> 'b InsiderWebsiteTest \<Rightarrow> bool \<times> 'b InsiderWebsiteTest" where
  "run_test_step step self =
     (let s1 = info (''Executing step: '' @ step_description step)
                 (self\<lparr>events := events self @ [StepStarted (step_name step)]\<rparr>) in
      case step_function step (world s1) of
        (Inr result, w) \<Rightarrow>
          (let s2 = s1\<lparr>world := w\<rparr> in
           if \<not> result then (result, error (''Step failed: '' @ step_description step) s2)
           else (result, s2))
      | (Inl e, w) \<Rightarrow>
          (False, error (''Step failed with exception: '' @ step_description step
                         @ [CHR 0x0A] @ str e) (s1\<lparr>world := w\<rparr>)))"

definition record_verdict :: "string \<Rightarrow> TestResult \<Rightarrow> 'b InsiderWebsiteTest \<Rightarrow> 'b InsiderWebsiteTest" where
  "record_verdict k v self =
     self\<lparr>test_results := setitem (test_results self) k v,
          events := events self @ [VerdictWritten k v]\<rparr>"

text \<open>
  The loop both test methods end with, over their own list of steps and their own key:
  the first step that fails writes \<open>FAILED\<close> and returns false; after the last step
  \<open>PASSED\<close> is written.
\<close>

fun run_steps :: "string \<Rightarrow> 'b TestStep list \<Rightarrow> 'b InsiderWebsiteTest \<Rightarrow> bool \<times> 'b InsiderWebsiteTest" where
  "run_steps key [] self = (True, record_verdict key PASSED self)"
| "run_steps key (step # steps) self =
     (case run_test_step step self of
        (ok, s1) \<Rightarrow> if \<not> ok then (False, record_verdict key FAILED s1)
                    else run_steps key steps s1)"

definition homepage_steps :: "'b InsiderWebsiteTest \<Rightarrow> 'b TestStep list" where
  "homepage_steps self =
     [\<lparr>step_name = ''navigate'', step_function = HomePage_navigate (home_page self),
       step_description = ''Navigating to homepage''\<rparr>,
      \<lparr>step_name = ''verify'', step_function = HomePage_is_loaded (home_page self),
       step_description = ''Verifying homepage loaded''\<rparr>,
      \<lparr>step_name = ''company_menu'', step_function = click_company_menu (home_page self),
       step_description = ''Clicking 'Company' menu''\<rparr>,
      \<lparr>step_name = ''careers_menu'', step_function = click_careers_menu (home_page self),
       step_description = ''Clicking 'Careers' menu''\<rparr>]"

definition test_homepage_loading :: "'b InsiderWebsiteTest \<Rightarrow> bool \<times> 'b InsiderWebsiteTest" where
  "test_homepage_loading self = run_steps ''Homepage Test'' (homepage_steps self) self"

definition qa_jobs_steps :: "'b InsiderWebsiteTest \<Rightarrow> 'b TestStep list" where
  "qa_jobs_steps self =
     [\<lparr>step_name = ''navigate'', step_function = CareersPage_navigate (careers_page self),
       step_description = ''Navigating to careers page''\<rparr>,
      \<lparr>step_name = ''cookies'', step_function = accept_cookies (careers_page self),
       step_description = ''Accepting cookies''\<rparr>,
      \<lparr>step_name = ''qa_jobs'', step_function = click_see_all_qa_jobs (careers_page self),
       step_description = ''Clicking 'See all QA jobs'' @ [CHR 0x27]\<rparr>,
      \<lparr>step_name = ''location'', step_function = select_location (careers_page self),
       step_description = ''Selecting location''\<rparr>,
      \<lparr>step_name = ''department'', step_function = select_department (careers_page self),
       step_description = ''Selecting department''\<rparr>,
      \<lparr>step_name = ''view_role'', step_function = view_first_role (careers_page self),
       step_description = ''Viewing first role''\<rparr>]"

definition test_qa_jobs_filtering :: "'b InsiderWebsiteTest \<Rightarrow> bool \<times> 'b InsiderWebsiteTest" where
  "test_qa_jobs_filtering self = run_steps ''QA Jobs Test'' (qa_jobs_steps self) self"

text \<open>\<open>teardown\<close>: the object always has its \<open>driver\<close> attribute once \<open>__init__\<close> returned.\<close>

definition teardown :: "'b InsiderWebsiteTest \<Rightarrow> (exn + unit) \<times> 'b InsiderWebsiteTest" where
  "teardown self =
     (case call (drv_quit (driver (home_page self))) (world self) of
        (r, w) \<Rightarrow> (r, self\<lparr>world := w, events := events self @ [SessionQuit]\<rparr>))"

text \<open>The two glyphs of the report, as their UTF-8 bytes.\<close>

definition check_mark :: string where
  "check_mark = [CHR 0xE2, CHR 0x9C, CHR 0x85]"

definition cross_mark :: string where
  "cross_mark = [CHR 0xE2, CHR 0x9D, CHR 0x8C]"

definition report_line :: "string \<times> TestResult \<Rightarrow> string" where
  "report_line item =
     fst item @ '': '' @ TestResult_name (snd item) @ '' ''
       @ (if snd item = PASSED then check_mark else cross_mark)"

text \<open>
  \<open>run_tests\<close>. An exception of the constructor leaves before the \<open>try\<close>. Inside it
  nothing raises: \<open>run_test_step\<close> has caught what a step raised. The \<open>finally\<close> block
  tears down and then logs; an exception of \<open>driver.quit\<close> leaves with the last line
  unwritten. The result is the exception that left \<open>run_tests\<close>, if any, and the test
  object as the run left it.
\<close>

definition run_tests :: "'b webdriver \<Rightarrow> bool \<Rightarrow> exn + (exn option \<times> 'b InsiderWebsiteTest)" where
  "run_tests d headless =
     (case InsiderWebsiteTest_init d headless of
        Inl e \<Rightarrow> Inl e
      | Inr test \<Rightarrow>
          (let t1 = info ''Starting test execution...'' test;
               t2 = snd (test_homepage_loading t1);
               t3 = snd (test_qa_jobs_filtering t2);
               t4 = info (CHR 0x0A # ''Test Results:'') t3;
               t5 = fold (\<lambda>item. info (report_line item)) (test_results t4) t4
           in case teardown t5 of
                (Inl e, t6) \<Rightarrow> Inr (Some e, t6)
              | (Inr _, t6) \<Rightarrow> Inr (None, info ''Test execution completed!'' t6)))"

text \<open>
  Two notions for stating what happens inside a case. \<open>steps_pass steps self\<close>: every step
  of the list, run in order from \<open>self\<close>, returned true, leaving the given test object.
  \<open>step_fails step self\<close>: run from \<open>self\<close>, the step's function returns false or raises.
\<close>

fun steps_pass :: "'b TestStep list \<Rightarrow> 'b InsiderWebsiteTest \<Rightarrow> 'b InsiderWebsiteTest option" where
  "steps_pass [] self = Some self"
| "steps_pass (step # steps) self =
     (case run_test_step step self of
        (ok, s1) \<Rightarrow> if ok then steps_pass steps s1 else None)"

definition step_fails :: "'b TestStep \<Rightarrow> 'b InsiderWebsiteTest \<Rightarrow> bool" where
  "step_fails step self =
     (case fst (step_function step
                  (world (info (''Executing step: '' @ step_description step) self))) of
        Inr ok \<Rightarrow> \<not> ok
      | Inl e \<Rightarrow> True)"

text \<open>The events that are assignments to \<open>test_results\<close>.\<close>

fun is_verdict_write :: "event \<Rightarrow> bool" where
  "is_verdict_write (VerdictWritten key v) = True"
| "is_verdict_write e = False"

text \<open>The names of the steps of the two test methods, in order.\<close>

definition homepage_names :: "string list" where
  "homepage_names = [''navigate'', ''verify'', ''company_menu'', ''careers_menu'']"

definition qa_jobs_names :: "string list" where
  "qa_jobs_names = [''navigate'', ''cookies'', ''qa_jobs'', ''location'', ''department'', ''view_role'']"

text \<open>
  What one round of \<open>safe_click\<close> meets in the remote browser \<open>b\<close>: the click returns;
  or it raises the interception and the scroll that follows returns; or it raises
  something else. \<open>after_intercepted\<close> is the browser an intercepted round leaves.
\<close>

definition click_succeeds :: "'b BasePage \<Rightarrow> element \<Rightarrow> 'b \<Rightarrow> bool" where
  "click_succeeds self el b = (fst (drv_click (driver self) el b) = Inr ())"

definition click_intercepted :: "'b BasePage \<Rightarrow> element \<Rightarrow> 'b \<Rightarrow> bool" where
  "click_intercepted self el b =
     (case drv_click (driver self) el b of
        (Inl e, b') \<Rightarrow> is_ElementClickIntercepted e \<and>
                       fst (execute_script (driver self) scroll_into_view el b') = Inr ()
      | (Inr _, b') \<Rightarrow> False)"

definition after_intercepted :: "'b BasePage \<Rightarrow> element \<Rightarrow> 'b \<Rightarrow> 'b" where
  "after_intercepted self el b =
     snd (execute_script (driver self) scroll_into_view el (snd (drv_click (driver self) el b)))"

definition click_raises :: "'b BasePage \<Rightarrow> element \<Rightarrow> 'b \<Rightarrow> exn \<Rightarrow> bool" where
  "click_raises self el b e =
     (fst (drv_click (driver self) el b) = Inl e \<and> \<not> is_ElementClickIntercepted e)"

text \<open>
  For runs in which a click may also raise something else and be retried: the browser
  any round that does not return leaves, and the condition that the scroll after an
  intercepted click in \<open>b\<close> returns.
\<close>

definition after_round :: "'b BasePage \<Rightarrow> element \<Rightarrow> 'b \<Rightarrow> 'b" where
  "after_round self el b =
     (case drv_click (driver self) el b of
        (Inl e, b') \<Rightarrow> if is_ElementClickIntercepted e
                       then snd (execute_script (driver self) scroll_into_view el b') else b'
      | (Inr u, b') \<Rightarrow> b')"

definition scroll_returns :: "'b BasePage \<Rightarrow> element \<Rightarrow> 'b \<Rightarrow> bool" where
  "scroll_returns self el b =
     (case drv_click (driver self) el b of
        (Inl e, b') \<Rightarrow> \<not> is_ElementClickIntercepted e \<or>
                       fst (execute_script (driver self) scroll_into_view el b') = Inr ()
      | (Inr u, b') \<Rightarrow> True)"

subsection \<open>A small browser for concrete runs\<close>

text \<open>
  Tabs with their addresses, the tab the driver talks to, a number of overlays that
  intercept a click (scrolling removes one), and the number of visibility waits so far.
  Activating the element \<open>view-role\<close> opens a second tab at \<open>role_url\<close>, activating
  \<open>stale\<close> raises. \<open>landmark n\<close> is what the \<open>n\<close>-th visibility wait raises, if anything.
\<close>

record toy_browser =
  tabs :: "(handle \<times> string) list"
  focused :: handle
  overlays :: nat
  waited :: nat

fun starts_with :: "string \<Rightarrow> string \<Rightarrow> bool" where
  "starts_with [] ys = True"
| "starts_with (x # xs) [] = False"
| "starts_with (x # xs) (y # ys) = (x = y \<and> starts_with xs ys)"

fun contains :: "string \<Rightarrow> string \<Rightarrow> bool" where
  "contains frag [] = (frag = [])"
| "contains frag (c # cs) = (starts_with frag (c # cs) \<or> contains frag cs)"

definition always_visible :: "nat \<Rightarrow> exn option" where
  "always_visible n = None"

definition never_visible :: "nat \<Rightarrow> exn option" where
  "never_visible n = Some (TimeoutException ''not visible'')"

definition session_lost_at_second_wait :: "nat \<Rightarrow> exn option" where
  "session_lost_at_second_wait n =
     (if n = 1 then Some (WebDriverException ''invalid session id'') else None)"

definition toy_driver :: "(nat \<Rightarrow> exn option) \<Rightarrow> string \<Rightarrow> toy_browser webdriver" where
  "toy_driver landmark role_url =
     \<lparr>Remote = (\<lambda>headless. Inr \<lparr>tabs = [(''tab-1'', ''about:blank'')], focused = ''tab-1'',
                                 overlays = 0, waited = 0\<rparr>),
      drv_get = (\<lambda>url b. (Inr (), b\<lparr>tabs := map (\<lambda>t. if fst t = focused b then (fst t, url) else t) (tabs b)\<rparr>)),
      drv_click = (\<lambda>el b.
         if 0 < overlays b then (Inl (ElementClickInterceptedException ''element click intercepted''), b)
         else if el = ''stale'' then (Inl (WebDriverException ''stale element reference''), b)
         else if el = ''view-role'' then (Inr (), b\<lparr>tabs := tabs b @ [(''tab-2'', role_url)]\<rparr>)
         else (Inr (), b)),
      execute_script = (\<lambda>script el b. (Inr (), b\<lparr>overlays := overlays b - 1\<rparr>)),
      find_elements = (\<lambda>loc b. (Inr [''view-role''], b)),
      current_window_handle = (\<lambda>b. (Inr (focused b), b)),
      window_handles = (\<lambda>b. (Inr (map fst (tabs b)), b)),
      switch_to_window = (\<lambda>h b.
         if h \<in> set (map fst (tabs b)) then (Inr (), b\<lparr>focused := h\<rparr>)
         else (Inl (WebDriverException ''no such window''), b)),
      drv_close = (\<lambda>b. (Inr (), b\<lparr>tabs := filter (\<lambda>t. fst t \<noteq> focused b) (tabs b)\<rparr>)),
      drv_quit = (\<lambda>b. (Inr (), b\<lparr>tabs := []\<rparr>)),
      until_element = (\<lambda>cond t b.
         case cond of
           visibility_of_element_located loc \<Rightarrow>
             (case landmark (waited b) of
                None \<Rightarrow> (Inr (snd loc), b\<lparr>waited := waited b + 1\<rparr>)
              | Some e \<Rightarrow> (Inl e, b\<lparr>waited := waited b + 1\<rparr>))
         | element_to_be_clickable loc \<Rightarrow> (Inr (snd loc), b)
         | presence_of_element_located loc \<Rightarrow> (Inr (snd loc), b)),
      until_true = (\<lambda>cond t b.
         case cond of
           url_contains frag \<Rightarrow>
             (case map_of (tabs b) (focused b) of
                Some address \<Rightarrow> if contains frag address then (Inr (), b)
                                else (Inl (TimeoutException ''address''), b)
              | None \<Rightarrow> (Inl (WebDriverException ''no such window''), b))
         | more_than_one_window \<Rightarrow>
             if 1 < length (tabs b) then (Inr (), b) else (Inl (TimeoutException ''tabs''), b))\<rparr>"

definition toy_state :: "nat \<Rightarrow> toy_browser state" where
  "toy_state n = \<lparr>remote = \<lparr>tabs = [(''tab-1'', ''about:blank'')], focused = ''tab-1'',
                            overlays = n, waited = 0\<rparr>,
                  log = []\<rparr>"

text \<open>The test object \<open>InsiderWebsiteTest_init\<close> builds on that browser.\<close>

definition toy_test :: "(nat \<Rightarrow> exn option) \<Rightarrow> string \<Rightarrow> toy_browser InsiderWebsiteTest" where
  "toy_test landmark role_url =
     \<lparr>world = toy_state 0,
      home_page = HomePage_init (toy_driver landmark role_url),
      careers_page = BasePage_init (toy_driver landmark role_url),
      test_results = [],
      events = [SessionCreated]\<rparr>"

section \<open>Properties of the provisioning controller\<close>

text \<open>
  C3. For every integer input \<open>n\<close>, the replica count stored by the provisioning
  controller equals \<open>max(1, min(n, 5))\<close>; in particular an input of 0 yields 1 and an
  input of 10 yields 5.
\<close>

theorem node_count_clamped:
  assumes "KubernetesTestController_init k n c = Inr self"
  shows "node_count self = max 1 (min n 5)
       \<and> (n = 0 \<longrightarrow> node_count self = 1)
       \<and> (n = 10 \<longrightarrow> node_count self = 5)
       \<and> 1 \<le> node_count self \<and> node_count self \<le> 5"
proof -
  have "node_count self = max 1 (min n 5)"
    using assms
    by (auto simp: KubernetesTestController_init_def k8s_log_def Let_def
             split: prod.splits option.splits)
  then show ?thesis by auto
qed

theorem node_count_clamped_witness:
  "KubernetesTestController_init (toy_client []) 10 [] =
     Inr \<lparr>node_count = 5, cluster = [], logged = [(INFO, ''Using in-cluster Kubernetes config'')],
          api_calls = []\<rparr>
   \<and> node_count \<lparr>node_count = 5, cluster = ([] :: manifest list),
          logged = [(INFO, ''Using in-cluster Kubernetes config'')], api_calls = []\<rparr>
       = max 1 (min 10 5)"
proof -
  have a: "KubernetesTestController_init (toy_client []) 10 [] =
     Inr \<lparr>node_count = 5, cluster = [], logged = [(INFO, ''Using in-cluster Kubernetes config'')],
          api_calls = []\<rparr>"
    by (simp add: KubernetesTestController_init_def toy_client_def k8s_log_def)
  from node_count_clamped [OF a] a show ?thesis by simp
qed

subsection \<open>What each deploy method leaves behind\<close>

lemma create_effect:
  "create api body self = (r, s) \<Longrightarrow>
     api_calls s = api_calls self @ [(body, r)] \<and> logged s = logged self \<and>
     node_count s = node_count self"
  by (auto simp: create_def split: prod.splits)

lemma on_exception_effect:
  "on_exception what e self = (r, s) \<Longrightarrow>
     api_calls s = api_calls self \<and> node_count s = node_count self \<and>
     (case e of
        ApiException t \<Rightarrow> r = SystemExit 1 \<and> logged s = logged self @ [(ERROR, what @ t)]
      | OtherException t \<Rightarrow> r = Uncaught e \<and> s = self)"
  by (auto simp: on_exception_def k8s_log_def k8s_str_def split: k8s_exn.splits)


lemma deploy_selenium_test_effect:
  assumes "deploy_selenium_test k self = (r, s)"
  shows "(r = Returned \<and> api_calls s = api_calls self @ [(selenium_test_deployment, None)])
       \<or> (\<exists>t. r = SystemExit 1 \<and> api_calls s = api_calls self @ [(selenium_test_deployment, Some (ApiException t))]
              \<and> last (logged s) = (ERROR, ''Failed to create Selenium Test Deployment: '' @ t))
       \<or> (\<exists>t. r = Uncaught (OtherException t) \<and> api_calls s = api_calls self @ [(selenium_test_deployment, Some (OtherException t))])"
proof -
  let ?s1 = "k8s_log INFO ''Creating Selenium test deployment'' self"
  obtain r1 s2 where c: "create (create_namespaced_deployment k) selenium_test_deployment ?s1 = (r1, s2)"
    by (cases "create (create_namespaced_deployment k) selenium_test_deployment ?s1")
  note e = create_effect [OF c]
  show ?thesis
  proof (cases r1)
    case None
    with assms c e show ?thesis by (simp add: deploy_selenium_test_def k8s_log_def)
  next
    case (Some ex)
    with assms c have o: "on_exception ''Failed to create Selenium Test Deployment: '' ex s2 = (r, s)"
      by (simp add: deploy_selenium_test_def)
    from on_exception_effect [OF o] e Some show ?thesis
      by (cases ex) (auto simp: k8s_log_def)
  qed
qed

lemma deploy_chrome_effect:
  assumes "deploy_chrome k self = (r, s)"
  shows "\<exists>calls. api_calls s = api_calls self @ calls \<and> node_count s = node_count self \<and>
          ((r = Returned \<and> calls = [(chrome_deployment (node_count self), None), (chrome_service, None), (chrome_hpa, None)])
         \<or> (\<exists>pre m t. calls = pre @ [(m, Some (ApiException t))] \<and>
               (pre, m) \<in> {([], chrome_deployment (node_count self)),
                            ([(chrome_deployment (node_count self), None)], chrome_service),
                            ([(chrome_deployment (node_count self), None), (chrome_service, None)], chrome_hpa)} \<and>
               r = SystemExit 1 \<and> last (logged s) = (ERROR, ''Failed to create Chrome resources: '' @ t))
         \<or> (\<exists>pre m t. calls = pre @ [(m, Some (OtherException t))] \<and> set pre \<subseteq> UNIV \<times> {None} \<and>
               r = Uncaught (OtherException t)))"
proof -
  let ?D = "chrome_deployment (node_count self)"
  let ?s1 = "k8s_log INFO (''Creating Chrome deployment with '' @ str_int (node_count self) @ '' replicas'') self"
  obtain r1 s2 where c1: "create (create_namespaced_deployment k) ?D ?s1 = (r1, s2)"
    by (cases "create (create_namespaced_deployment k) ?D ?s1")
  note e1 = create_effect [OF c1]
  show ?thesis
  proof (cases r1)
    case (Some ex)
    with assms c1 have o: "on_exception ''Failed to create Chrome resources: '' ex s2 = (r, s)"
      by (simp add: deploy_chrome_def)
    from on_exception_effect [OF o] e1 Some show ?thesis
      by (cases ex) (auto simp: k8s_log_def)
  next
    case n1: None
    let ?s3 = "k8s_log INFO ''Creating Chrome service'' s2"
    obtain r2 s4 where c2: "create (create_namespaced_service k) chrome_service ?s3 = (r2, s4)"
      by (cases "create (create_namespaced_service k) chrome_service ?s3")
    note e2 = create_effect [OF c2]
    show ?thesis
    proof (cases r2)
      case (Some ex)
      with assms c1 c2 n1 have o: "on_exception ''Failed to create Chrome resources: '' ex s4 = (r, s)"
        by (simp add: deploy_chrome_def)
      from on_exception_effect [OF o] e1 e2 n1 Some show ?thesis
        by (cases ex) (auto simp: k8s_log_def)
    next
      case n2: None
      let ?s5 = "k8s_log INFO ''Creating Chrome HPA'' s4"
      obtain r3 s6 where c3: "create (create_namespaced_horizontal_pod_autoscaler k) chrome_hpa ?s5 = (r3, s6)"
        by (cases "create (create_namespaced_horizontal_pod_autoscaler k) chrome_hpa ?s5")
      note e3 = create_effect [OF c3]
      show ?thesis
      proof (cases r3)
        case (Some ex)
        with assms c1 c2 c3 n1 n2 have o: "on_exception ''Failed to create Chrome resources: '' ex s6 = (r, s)"
          by (simp add: deploy_chrome_def)
        from on_exception_effect [OF o] e1 e2 e3 n1 n2 Some show ?thesis
          by (cases ex) (auto simp: k8s_log_def)
      next
        case None
        with assms c1 c2 c3 n1 n2 have "r = Returned" "s = s6"
          by (simp_all add: deploy_chrome_def)
        with e1 e2 e3 n1 n2 None show ?thesis by (simp add: k8s_log_def)
      qed
    qed
  qed
qed

text \<open>
  C8. If any create-resource call to the cluster-orchestration API fails (raises
  \<open>ApiException\<close>), the provisioning process logs the error and terminates immediately
  with a non-zero exit status, without retrying the call: the failed call is the last
  one issued and was issued once.
\<close>

theorem api_failure_is_fatal:
  assumes run: "deploy_resources k self = (r, self')"
      and fresh: "api_calls self = []"
      and failed: "(m, Some (ApiException t)) \<in> set (api_calls self')"
  shows "r = SystemExit 1
       \<and> last (api_calls self') = (m, Some (ApiException t))
       \<and> length (filter (\<lambda>c. fst c = m) (api_calls self')) = 1
       \<and> last (logged self') =
           (ERROR, (if m = selenium_test_deployment then ''Failed to create Selenium Test Deployment: ''
                    else ''Failed to create Chrome resources: '') @ t)"
proof -
  obtain r1 s1 where c: "deploy_chrome k self = (r1, s1)"
    by (cases "deploy_chrome k self")
  note ec = deploy_chrome_effect [OF c]
  show ?thesis
  proof (cases "r1 = Returned")
    case True
    with run c have t: "deploy_selenium_test k s1 = (r, self')"
      by (simp add: deploy_resources_def)
    from deploy_selenium_test_effect [OF t] ec True fresh failed show ?thesis
      by auto
  next
    case False
    with run c have "r = r1" "self' = s1"
      by (auto simp: deploy_resources_def split: ending.splits)
    with ec False fresh failed show ?thesis
      by (auto split: k8s_exn.splits)
  qed
qed

theorem api_failure_is_fatal_witness:
  "deploy_resources (toy_client [(chrome_service, ApiException ''409 Conflict'')])
     \<lparr>node_count = 2, cluster = [], logged = [], api_calls = []\<rparr> =
   (SystemExit 1,
    \<lparr>node_count = 2, cluster = [chrome_deployment 2],
     logged = [(INFO, ''Creating Chrome deployment with 2 replicas''),
               (INFO, ''Creating Chrome service''),
               (ERROR, ''Failed to create Chrome resources: 409 Conflict'')],
     api_calls = [(chrome_deployment 2, None),
                  (chrome_service, Some (ApiException ''409 Conflict''))]\<rparr>)
   \<and> SystemExit 1 \<noteq> SystemExit 0"
proof -
  let ?self = "\<lparr>node_count = 2, cluster = ([] :: manifest list), logged = [], api_calls = []\<rparr>"
  let ?end = "\<lparr>node_count = 2, cluster = [chrome_deployment 2],
     logged = [(INFO, ''Creating Chrome deployment with 2 replicas''),
               (INFO, ''Creating Chrome service''),
               (ERROR, ''Failed to create Chrome resources: 409 Conflict'')],
     api_calls = [(chrome_deployment 2, None),
                  (chrome_service, Some (ApiException ''409 Conflict''))]\<rparr>"
  have run: "deploy_resources (toy_client [(chrome_service, ApiException ''409 Conflict'')]) ?self
             = (SystemExit 1, ?end)"
    by (simp add: deploy_resources_def deploy_chrome_def deploy_selenium_test_def create_def
        on_exception_def k8s_log_def k8s_str_def Let_def toy_client_def str_int_def digits.simps)
  have fresh: "api_calls ?self = []" by simp
  have failed: "(chrome_service, Some (ApiException ''409 Conflict'')) \<in> set (api_calls ?end)"
    by simp
  from api_failure_is_fatal [OF run fresh failed] run show ?thesis by simp
qed


section \<open>Properties of the page objects\<close>

subsection \<open>safe_click\<close>

lemma round_success:
  assumes "click_succeeds self el (remote s)"
  shows "fst (safe_click_loop self el n (a # rest) s) = Inr True"
proof -
  obtain r b where c: "drv_click (driver self) el (remote s) = (r, b)"
    by (cases "drv_click (driver self) el (remote s)")
  with assms have "r = Inr ()" by (simp add: click_succeeds_def)
  with c show ?thesis
    by (simp add: try_except_def and_then_def call_def ret_def)
qed

lemma round_intercepted:
  assumes "click_intercepted self el (remote s)"
  shows "safe_click_loop self el n (a # rest) s =
         safe_click_loop self el n rest
           (s\<lparr>log := log s @ [(WARNING, ''Click intercepted, attempt '' @ str_int (int a + 1)
                                         @ ''/'' @ str_int n)],
              remote := after_intercepted self el (remote s)\<rparr>)"
proof -
  obtain r b where c: "drv_click (driver self) el (remote s) = (r, b)"
    by (cases "drv_click (driver self) el (remote s)")
  obtain r' b' where x: "execute_script (driver self) scroll_into_view el b = (r', b')"
    by (cases "execute_script (driver self) scroll_into_view el b")
  from assms c x obtain e where r: "r = Inl e" "is_ElementClickIntercepted e" "r' = Inr ()"
    by (cases r) (auto simp: click_intercepted_def)
  with c x show ?thesis
    by (simp add: after_intercepted_def try_except_def and_then_def call_def ret_def logger_def)
qed

lemma loop_all_intercepted:
  "\<forall>i<length atts. click_intercepted self el ((after_intercepted self el ^^ i) (remote s)) \<Longrightarrow>
     fst (safe_click_loop self el n atts s) = Inr False"
proof (induction atts arbitrary: s)
  case Nil
  then show ?case by (simp add: ret_def)
next
  case (Cons a rest)
  from Cons.prems have "click_intercepted self el (remote s)" by fastforce
  from round_intercepted [OF this] obtain s' where
    s': "safe_click_loop self el n (a # rest) s = safe_click_loop self el n rest s'"
        "remote s' = after_intercepted self el (remote s)" by fastforce
  have "\<forall>i<length rest. click_intercepted self el ((after_intercepted self el ^^ i) (remote s'))"
  proof (intro allI impI)
    fix i assume "i < length rest"
    then have "Suc i < length (a # rest)" by simp
    with Cons.prems have "click_intercepted self el ((after_intercepted self el ^^ Suc i) (remote s))"
      by blast
    then show "click_intercepted self el ((after_intercepted self el ^^ i) (remote s'))"
      by (simp add: s'(2) funpow_swap1)
  qed
  from Cons.IH [OF this] s'(1) show ?case by simp
qed

lemma loop_then_success:
  "\<forall>i<k. click_intercepted self el ((after_intercepted self el ^^ i) (remote s)) \<Longrightarrow>
   click_succeeds self el ((after_intercepted self el ^^ k) (remote s)) \<Longrightarrow>
   k < length atts \<Longrightarrow>
     fst (safe_click_loop self el n atts s) = Inr True"
proof (induction k arbitrary: s atts)
  case 0
  then obtain a rest where "atts = a # rest" by (cases atts) auto
  with 0 show ?case by (simp add: round_success del: safe_click_loop.simps)
next
  case (Suc k)
  then obtain a rest where atts: "atts = a # rest" by (cases atts) auto
  from Suc.prems have "click_intercepted self el (remote s)" by fastforce
  from round_intercepted [OF this] obtain s' where
    s': "safe_click_loop self el n (a # rest) s = safe_click_loop self el n rest s'"
        "remote s' = after_intercepted self el (remote s)" by fastforce
  have 1: "\<forall>i<k. click_intercepted self el ((after_intercepted self el ^^ i) (remote s'))"
  proof (intro allI impI)
    fix i assume "i < k"
    then have "Suc i < Suc k" by simp
    with Suc.prems(1) have "click_intercepted self el ((after_intercepted self el ^^ Suc i) (remote s))"
      by blast
    then show "click_intercepted self el ((after_intercepted self el ^^ i) (remote s'))"
      by (simp add: s'(2) funpow_swap1)
  qed
  have 2: "click_succeeds self el ((after_intercepted self el ^^ k) (remote s'))"
    using Suc.prems(2) by (simp add: s'(2) funpow_swap1)
  have 3: "k < length rest" using Suc.prems(3) atts by simp
  from Suc.IH [OF 1 2 3] s'(1) atts show ?case by simp
qed

lemma round_raises_last:
  assumes "click_raises self el (remote s) e" and "int a = n - 1"
  shows "fst (safe_click_loop self el n (a # rest) s) = Inl e"
proof -
  obtain r b where c: "drv_click (driver self) el (remote s) = (r, b)"
    by (cases "drv_click (driver self) el (remote s)")
  with assms have "r = Inl e" "\<not> is_ElementClickIntercepted e" by (simp_all add: click_raises_def)
  with c assms(2) show ?thesis
    by (simp add: try_except_def and_then_def call_def ret_def logger_def raise_def)
qed

lemma loop_then_raises:
  "\<forall>i<k. click_intercepted self el ((after_intercepted self el ^^ i) (remote s)) \<Longrightarrow>
   click_raises self el ((after_intercepted self el ^^ k) (remote s)) e \<Longrightarrow>
   j + k + 1 = K \<Longrightarrow>
     fst (safe_click_loop self el (int K) [j..<K] s) = Inl e"
proof (induction k arbitrary: s j)
  case 0
  then have "[j..<K] = j # [Suc j..<K]" "int j = int K - 1" by (auto simp: upt_conv_Cons)
  with 0 show ?case by (simp add: round_raises_last del: safe_click_loop.simps)
next
  case (Suc k)
  then have atts: "[j..<K] = j # [Suc j..<K]" by (auto simp: upt_conv_Cons)
  from Suc.prems have "click_intercepted self el (remote s)" by fastforce
  from round_intercepted [OF this] obtain s' where
    s': "safe_click_loop self el (int K) (j # [Suc j..<K]) s = safe_click_loop self el (int K) [Suc j..<K] s'"
        "remote s' = after_intercepted self el (remote s)" by fastforce
  have 1: "\<forall>i<k. click_intercepted self el ((after_intercepted self el ^^ i) (remote s'))"
  proof (intro allI impI)
    fix i assume "i < k"
    then have "Suc i < Suc k" by simp
    with Suc.prems(1) have "click_intercepted self el ((after_intercepted self el ^^ Suc i) (remote s))"
      by blast
    then show "click_intercepted self el ((after_intercepted self el ^^ i) (remote s'))"
      by (simp add: s'(2) funpow_swap1)
  qed
  have 2: "click_raises self el ((after_intercepted self el ^^ k) (remote s')) e"
    using Suc.prems(2) by (simp add: s'(2) funpow_swap1)
  have 3: "Suc j + k + 1 = K" using Suc.prems(3) by simp
  from Suc.IH [OF 1 2 3] s'(1) atts show ?case by simp
qed

lemma round_cases:
  assumes "scroll_returns self el (remote s)"
  shows "(click_succeeds self el (remote s) \<and> fst (safe_click_loop self el n (a # rest) s) = Inr True)
       \<or> (\<exists>e. click_raises self el (remote s) e \<and> int a = n - 1
              \<and> fst (safe_click_loop self el n (a # rest) s) = Inl e)
       \<or> (\<not> click_succeeds self el (remote s)
            \<and> (\<forall>e. click_raises self el (remote s) e \<longrightarrow> int a \<noteq> n - 1)
            \<and> (\<exists>s'. remote s' = after_round self el (remote s)
                   \<and> safe_click_loop self el n (a # rest) s = safe_click_loop self el n rest s'))"
proof -
  obtain r b where c: "drv_click (driver self) el (remote s) = (r, b)"
    by (cases "drv_click (driver self) el (remote s)")
  show ?thesis
  proof (cases r)
    case (Inr u)
    with c show ?thesis
      by (simp add: click_succeeds_def try_except_def and_then_def call_def ret_def)
  next
    case (Inl x)
    show ?thesis
    proof (cases "is_ElementClickIntercepted x")
      case True
      obtain r' b' where x: "execute_script (driver self) scroll_into_view el b = (r', b')"
        by (cases "execute_script (driver self) scroll_into_view el b")
      with assms c Inl True have r': "r' = Inr ()" by (simp add: scroll_returns_def)
      have "safe_click_loop self el n (a # rest) s = safe_click_loop self el n rest
              (s\<lparr>log := log s @ [(WARNING, ''Click intercepted, attempt '' @ str_int (int a + 1)
                                         @ ''/'' @ str_int n)], remote := b'\<rparr>)"
        using c Inl True x r'
        by (simp add: try_except_def and_then_def call_def ret_def logger_def)
      moreover have "after_round self el (remote s) = b'"
        using c Inl True x by (simp add: after_round_def)
      ultimately have "\<exists>s'. remote s' = after_round self el (remote s)
                   \<and> safe_click_loop self el n (a # rest) s = safe_click_loop self el n rest s'"
        by (intro exI [of _ "s\<lparr>log := log s @ [(WARNING, ''Click intercepted, attempt '' @ str_int (int a + 1)
                                         @ ''/'' @ str_int n)], remote := b'\<rparr>"]) simp
      moreover have "\<not> click_succeeds self el (remote s)" "\<forall>e. \<not> click_raises self el (remote s) e"
        using c Inl True by (auto simp: click_succeeds_def click_raises_def)
      ultimately show ?thesis by blast
    next
      case False
      have cr: "click_raises self el (remote s) x" "\<forall>e. click_raises self el (remote s) e \<longrightarrow> e = x"
        using c Inl False by (auto simp: click_raises_def)
      have ns: "\<not> click_succeeds self el (remote s)"
        using c Inl by (simp add: click_succeeds_def)
      show ?thesis
      proof (cases "int a = n - 1")
        case True
        with c Inl False have "fst (safe_click_loop self el n (a # rest) s) = Inl x"
          by (simp add: try_except_def and_then_def call_def ret_def logger_def raise_def)
        with cr True show ?thesis by blast
      next
        case nl: False
        have "safe_click_loop self el n (a # rest) s = safe_click_loop self el n rest
              (s\<lparr>remote := b, log := log s @ [(ERROR, ''Click failed: '' @ str x @ '', attempt ''
                                       @ str_int (int a + 1) @ ''/'' @ str_int n)]\<rparr>)"
          using c Inl False nl
          by (simp add: try_except_def and_then_def call_def ret_def logger_def raise_def)
        moreover have "after_round self el (remote s) = b"
          using c Inl False by (simp add: after_round_def)
        ultimately have "\<exists>s'. remote s' = after_round self el (remote s)
                   \<and> safe_click_loop self el n (a # rest) s = safe_click_loop self el n rest s'"
          by (intro exI [of _ "s\<lparr>remote := b, log := log s @ [(ERROR, ''Click failed: '' @ str x @ '', attempt ''
                                       @ str_int (int a + 1) @ ''/'' @ str_int n)]\<rparr>"]) simp
        with ns nl show ?thesis by blast
      qed
    qed
  qed
qed

lemma loop_raises_only_last:
  "\<forall>i<length atts. scroll_returns self el ((after_round self el ^^ i) (remote s)) \<Longrightarrow>
   fst (safe_click_loop self el n atts s) = Inl e \<Longrightarrow>
     \<exists>i<length atts. int (atts ! i) = n - 1
        \<and> click_raises self el ((after_round self el ^^ i) (remote s)) e
        \<and> (\<forall>j<i. \<not> click_succeeds self el ((after_round self el ^^ j) (remote s)))"
proof (induction atts arbitrary: s)
  case Nil
  then show ?case by (simp add: ret_def)
next
  case (Cons a rest)
  from Cons.prems(1) have sr: "scroll_returns self el (remote s)" by fastforce
  from round_cases [OF sr, of n a rest] Cons.prems(2)
  consider (final) "click_raises self el (remote s) e" "int a = n - 1"
    | (further) s' where "\<not> click_succeeds self el (remote s)"
        "remote s' = after_round self el (remote s)"
        "safe_click_loop self el n (a # rest) s = safe_click_loop self el n rest s'"
    by auto
  then show ?case
  proof cases
    case final
    then show ?thesis by (intro exI [of _ 0]) simp
  next
    case further
    have 1: "\<forall>i<length rest. scroll_returns self el ((after_round self el ^^ i) (remote s'))"
    proof (intro allI impI)
      fix i assume "i < length rest"
      then have "Suc i < length (a # rest)" by simp
      with Cons.prems(1) have "scroll_returns self el ((after_round self el ^^ Suc i) (remote s))"
        by blast
      then show "scroll_returns self el ((after_round self el ^^ i) (remote s'))"
        by (simp add: further(2) funpow_swap1)
    qed
    from Cons.prems(2) further(3) have 2: "fst (safe_click_loop self el n rest s') = Inl e" by simp
    from Cons.IH [OF 1 2] obtain i where
      i: "i < length rest" "int (rest ! i) = n - 1"
         "click_raises self el ((after_round self el ^^ i) (remote s')) e"
         "\<forall>j<i. \<not> click_succeeds self el ((after_round self el ^^ j) (remote s'))"
      by blast
    have "\<forall>j<Suc i. \<not> click_succeeds self el ((after_round self el ^^ j) (remote s))"
    proof (intro allI impI)
      fix j assume j: "j < Suc i"
      show "\<not> click_succeeds self el ((after_round self el ^^ j) (remote s))"
      proof (cases j)
        case 0
        with further(1) show ?thesis by simp
      next
        case (Suc j')
        with j i(4) have "\<not> click_succeeds self el ((after_round self el ^^ j') (remote s'))" by simp
        with Suc show ?thesis by (simp add: further(2) funpow_swap1)
      qed
    qed
    with i show ?thesis
      by (intro exI [of _ "Suc i"]) (simp add: further(2) funpow_swap1)
  qed
qed

text \<open>
  C1 (as amended). For every attempt budget \<open>K \<ge> 1\<close>, with the scroll after each
  intercepted click returning: if the click is intercepted on the first \<open>K - 1\<close> attempts
  and succeeds on attempt \<open>K\<close>, \<open>safe_click\<close> returns true; if it is intercepted on all
  \<open>K\<close> attempts, \<open>safe_click\<close> returns false and nothing propagates; an exception
  propagates when attempt \<open>K\<close> raises one that is not the interception, and only then:
  whatever the earlier attempts raised, an exception that leaves \<open>safe_click\<close> is the one
  the click of attempt \<open>K\<close> raised, it is not the interception, and no earlier attempt
  succeeded.
\<close>

theorem safe_click_retries:
  assumes "1 \<le> K"
  shows "((\<forall>i<K - 1. click_intercepted self el ((after_intercepted self el ^^ i) (remote s)))
          \<and> click_succeeds self el ((after_intercepted self el ^^ (K - 1)) (remote s))
          \<longrightarrow> fst (safe_click self el (int K) s) = Inr True)
       \<and> ((\<forall>i<K. click_intercepted self el ((after_intercepted self el ^^ i) (remote s)))
          \<longrightarrow> fst (safe_click self el (int K) s) = Inr False)
       \<and> ((\<forall>i<K - 1. click_intercepted self el ((after_intercepted self el ^^ i) (remote s)))
          \<and> click_raises self el ((after_intercepted self el ^^ (K - 1)) (remote s)) e
          \<longrightarrow> fst (safe_click self el (int K) s) = Inl e)
       \<and> ((\<forall>i<K. scroll_returns self el ((after_round self el ^^ i) (remote s)))
          \<and> fst (safe_click self el (int K) s) = Inl e
          \<longrightarrow> click_raises self el ((after_round self el ^^ (K - 1)) (remote s)) e
              \<and> (\<forall>j<K - 1. \<not> click_succeeds self el ((after_round self el ^^ j) (remote s))))"
proof (intro conjI impI)
  assume "(\<forall>i<K - 1. click_intercepted self el ((after_intercepted self el ^^ i) (remote s)))
          \<and> click_succeeds self el ((after_intercepted self el ^^ (K - 1)) (remote s))"
  moreover have "K - 1 < length [0..<nat (int K)]" using assms by simp
  ultimately show "fst (safe_click self el (int K) s) = Inr True"
    unfolding safe_click_def by (blast intro: loop_then_success)
next
  assume "\<forall>i<K. click_intercepted self el ((after_intercepted self el ^^ i) (remote s))"
  then have "\<forall>i<length [0..<nat (int K)].
               click_intercepted self el ((after_intercepted self el ^^ i) (remote s))"
    by simp
  then show "fst (safe_click self el (int K) s) = Inr False"
    unfolding safe_click_def by (rule loop_all_intercepted)
next
  assume a: "(\<forall>i<K - 1. click_intercepted self el ((after_intercepted self el ^^ i) (remote s)))
          \<and> click_raises self el ((after_intercepted self el ^^ (K - 1)) (remote s)) e"
  have "0 + (K - 1) + 1 = K" using assms by simp
  with a have "fst (safe_click_loop self el (int K) [0..<K] s) = Inl e"
    by (blast intro: loop_then_raises)
  then show "fst (safe_click self el (int K) s) = Inl e"
    by (simp add: safe_click_def)
next
  assume a: "(\<forall>i<K. scroll_returns self el ((after_round self el ^^ i) (remote s)))
          \<and> fst (safe_click self el (int K) s) = Inl e"
  then have 1: "\<forall>i<length [0..<K]. scroll_returns self el ((after_round self el ^^ i) (remote s))"
    by simp
  from a have 2: "fst (safe_click_loop self el (int K) [0..<K] s) = Inl e"
    by (simp add: safe_click_def)
  from loop_raises_only_last [OF 1 2] obtain i where
    i: "i < K" "int ([0..<K] ! i) = int K - 1"
       "click_raises self el ((after_round self el ^^ i) (remote s)) e"
       "\<forall>j<i. \<not> click_succeeds self el ((after_round self el ^^ j) (remote s))"
    by auto
  from i(1,2) have k: "i = K - 1" by auto
  from i(3) k show "click_raises self el ((after_round self el ^^ (K - 1)) (remote s)) e"
    by simp
  from i(4) k show "\<forall>j<K - 1. \<not> click_succeeds self el ((after_round self el ^^ j) (remote s))"
    by simp
qed

theorem safe_click_retries_witness:
  "(1::nat) \<le> 3
   \<and> fst (safe_click (BasePage_init (toy_driver always_visible [])) ''button'' 3 (toy_state 2)) = Inr True
   \<and> fst (safe_click (BasePage_init (toy_driver always_visible [])) ''button'' 3 (toy_state 7)) = Inr False
   \<and> fst (safe_click (BasePage_init (toy_driver always_visible [])) ''stale'' 3 (toy_state 2))
       = Inl (WebDriverException ''stale element reference'')
   \<and> click_raises (BasePage_init (toy_driver always_visible [])) ''stale''
         ((after_round (BasePage_init (toy_driver always_visible [])) ''stale'' ^^ (3 - 1))
            (remote (toy_state 2)))
         (WebDriverException ''stale element reference'')"
proof -
  let ?p = "BasePage_init (toy_driver always_visible [])"
  have h1: "\<forall>i<3 - 1. click_intercepted ?p ''button''
              ((after_intercepted ?p ''button'' ^^ i) (remote (toy_state 2)))"
    by (simp add: less_Suc_eq numeral_eq_Suc click_intercepted_def after_intercepted_def
          BasePage_init_def toy_driver_def toy_state_def)
  have h2: "click_succeeds ?p ''button''
              ((after_intercepted ?p ''button'' ^^ (3 - 1)) (remote (toy_state 2)))"
    by (simp add: numeral_eq_Suc click_succeeds_def after_intercepted_def BasePage_init_def
          toy_driver_def toy_state_def)
  have h3: "\<forall>i<3. click_intercepted ?p ''button''
              ((after_intercepted ?p ''button'' ^^ i) (remote (toy_state 7)))"
    by (simp add: less_Suc_eq numeral_eq_Suc click_intercepted_def after_intercepted_def
          BasePage_init_def toy_driver_def toy_state_def)
  have h4: "\<forall>i<3 - 1. click_intercepted ?p ''stale''
              ((after_intercepted ?p ''stale'' ^^ i) (remote (toy_state 2)))"
    by (simp add: less_Suc_eq numeral_eq_Suc click_intercepted_def after_intercepted_def
          BasePage_init_def toy_driver_def toy_state_def)
  have h5: "click_raises ?p ''stale''
              ((after_intercepted ?p ''stale'' ^^ (3 - 1)) (remote (toy_state 2)))
              (WebDriverException ''stale element reference'')"
    by (simp add: numeral_eq_Suc click_raises_def after_intercepted_def BasePage_init_def
          toy_driver_def toy_state_def)
  have k: "(1::nat) \<le> 3" by simp
  from safe_click_retries [OF k, of ?p "''button''" "toy_state 2"] h1 h2
  have a: "fst (safe_click ?p ''button'' 3 (toy_state 2)) = Inr True" by simp
  from safe_click_retries [OF k, of ?p "''button''" "toy_state 7"] h3
  have b: "fst (safe_click ?p ''button'' 3 (toy_state 7)) = Inr False" by simp
  from safe_click_retries [OF k, of ?p "''stale''" "toy_state 2" "WebDriverException ''stale element reference''"] h4 h5
  have c: "fst (safe_click ?p ''stale'' 3 (toy_state 2))
           = Inl (WebDriverException ''stale element reference'')" by simp
  have h6: "\<forall>i<3. scroll_returns ?p ''stale''
              ((after_round ?p ''stale'' ^^ i) (remote (toy_state 2)))"
    by (simp add: less_Suc_eq numeral_eq_Suc scroll_returns_def after_round_def
          BasePage_init_def toy_driver_def toy_state_def)
  from safe_click_retries [OF k, of ?p "''stale''" "toy_state 2" "WebDriverException ''stale element reference''"] h6 c
  have d: "click_raises ?p ''stale'' ((after_round ?p ''stale'' ^^ (3 - 1)) (remote (toy_state 2)))
             (WebDriverException ''stale element reference'')"
    by simp
  from a b c d show ?thesis by simp
qed

text \<open>
  The claim as stated fails: with two attempts, both intercepted, \<open>safe_click\<close> returns
  false; no exception reaches the caller.
\<close>

theorem safe_click_exhausted_returns_false:
  "click_intercepted (BasePage_init (toy_driver always_visible [])) ''button'' (remote (toy_state 2))
   \<and> click_intercepted (BasePage_init (toy_driver always_visible [])) ''button''
       (after_intercepted (BasePage_init (toy_driver always_visible [])) ''button'' (remote (toy_state 2)))
   \<and> fst (safe_click (BasePage_init (toy_driver always_visible [])) ''button'' 2 (toy_state 2)) = Inr False"
  by (simp add: click_intercepted_def after_intercepted_def BasePage_init_def toy_driver_def
        toy_state_def safe_click_def try_except_def and_then_def call_def ret_def logger_def
        raise_def upt_rec)


section \<open>Properties of the test run\<close>

subsection \<open>What a step, a case and the run leave behind\<close>

lemma map_of_setitem: "map_of (setitem d k v) k = Some v"
  by (induction d k v rule: setitem.induct) auto

lemma run_test_step_frame:
  assumes "run_test_step step self = (ok, s1)"
  shows "test_results s1 = test_results self
       \<and> events s1 = events self @ [StepStarted (step_name step)]
       \<and> home_page s1 = home_page self \<and> careers_page s1 = careers_page self"
proof -
  let ?s = "info (''Executing step: '' @ step_description step)
              (self\<lparr>events := events self @ [StepStarted (step_name step)]\<rparr>)"
  obtain r w where f: "step_function step (world ?s) = (r, w)"
    by (cases "step_function step (world ?s)")
  show ?thesis
  proof (cases r)
    case (Inl e)
    with assms f show ?thesis
      by (auto simp: run_test_step_def info_def error_def Let_def)
  next
    case (Inr b)
    with assms f show ?thesis
      by (cases b) (auto simp: run_test_step_def info_def error_def Let_def)
  qed
qed

lemma step_fails_iff: "step_fails step self \<longleftrightarrow> \<not> fst (run_test_step step self)"
proof -
  let ?s = "info (''Executing step: '' @ step_description step)
              (self\<lparr>events := events self @ [StepStarted (step_name step)]\<rparr>)"
  have w: "world ?s = world (info (''Executing step: '' @ step_description step) self)"
    by (simp add: info_def)
  obtain r w where f: "step_function step (world ?s) = (r, w)"
    by (cases "step_function step (world ?s)")
  show ?thesis
  proof (cases r)
    case (Inl e)
    with f w show ?thesis
      by (simp add: step_fails_def run_test_step_def Let_def)
  next
    case (Inr b)
    with f w show ?thesis
      by (cases b) (simp_all add: step_fails_def run_test_step_def Let_def)
  qed
qed

lemma steps_pass_frame:
  "steps_pass pre self = Some s1 \<Longrightarrow>
     test_results s1 = test_results self
   \<and> events s1 = events self @ map (\<lambda>step. StepStarted (step_name step)) pre
   \<and> home_page s1 = home_page self \<and> careers_page s1 = careers_page self"
proof (induction pre arbitrary: self)
  case Nil
  then show ?case by simp
next
  case (Cons step pre)
  obtain ok s where r: "run_test_step step self = (ok, s)"
    by (cases "run_test_step step self")
  with Cons.prems have ok and p: "steps_pass pre s = Some s1"
    by (auto split: if_splits)
  from Cons.IH [OF p] run_test_step_frame [OF r] show ?case by simp
qed

lemma run_steps_append:
  "steps_pass pre self = Some s1 \<Longrightarrow> run_steps key (pre @ rest) self = run_steps key rest s1"
proof (induction pre arbitrary: self)
  case Nil
  then show ?case by simp
next
  case (Cons step pre)
  obtain ok s where r: "run_test_step step self = (ok, s)"
    by (cases "run_test_step step self")
  with Cons.prems have ok and p: "steps_pass pre s = Some s1"
    by (auto split: if_splits)
  from Cons.IH [OF p] r \<open>ok\<close> show ?case by simp
qed

lemma run_steps_effect:
  "run_steps key steps self = (ok, s1) \<Longrightarrow>
     \<exists>k v. k \<le> length steps \<and> (steps \<noteq> [] \<longrightarrow> 1 \<le> k) \<and> v = (if ok then PASSED else FAILED)
       \<and> events s1 = events self @ map (\<lambda>step. StepStarted (step_name step)) (take k steps)
                         @ [VerdictWritten key v]
       \<and> test_results s1 = setitem (test_results self) key v
       \<and> home_page s1 = home_page self \<and> careers_page s1 = careers_page self"
proof (induction steps arbitrary: self)
  case Nil
  then show ?case by (auto simp: record_verdict_def)
next
  case (Cons step steps)
  obtain b s where r: "run_test_step step self = (b, s)"
    by (cases "run_test_step step self")
  note f = run_test_step_frame [OF r]
  show ?case
  proof (cases b)
    case False
    with Cons.prems r have "ok = False" "s1 = record_verdict key FAILED s" by auto
    with f show ?thesis
      by (intro exI [of _ 1] exI [of _ FAILED]) (simp add: record_verdict_def)
  next
    case True
    with Cons.prems r have "run_steps key steps s = (ok, s1)" by simp
    from Cons.IH [OF this] obtain k v where
      k: "k \<le> length steps" "v = (if ok then PASSED else FAILED)"
         "events s1 = events s @ map (\<lambda>step. StepStarted (step_name step)) (take k steps)
                         @ [VerdictWritten key v]"
         "test_results s1 = setitem (test_results s) key v"
         "home_page s1 = home_page s" "careers_page s1 = careers_page s"
      by blast
    with f show ?thesis
      by (intro exI [of _ "Suc k"] exI [of _ v]) simp
  qed
qed

lemma info_frame:
  "events (info msg self) = events self \<and> test_results (info msg self) = test_results self
   \<and> home_page (info msg self) = home_page self \<and> careers_page (info msg self) = careers_page self"
  by (simp add: info_def)

lemma fold_info_frame:
  "events (fold (\<lambda>item. info (f item)) items self) = events self
   \<and> test_results (fold (\<lambda>item. info (f item)) items self) = test_results self
   \<and> home_page (fold (\<lambda>item. info (f item)) items self) = home_page self"
  by (induction items arbitrary: self) (simp_all add: info_frame)

lemma teardown_frame:
  "teardown self = (r, s1) \<Longrightarrow>
     events s1 = events self @ [SessionQuit] \<and> test_results s1 = test_results self"
  by (auto simp: teardown_def split: prod.splits)

lemma step_names:
  "map step_name (homepage_steps self) = homepage_names"
  "map step_name (qa_jobs_steps self) = qa_jobs_names"
  by (simp_all add: homepage_steps_def qa_jobs_steps_def homepage_names_def qa_jobs_names_def)

lemma started_names:
  "map (\<lambda>step. StepStarted (step_name step)) (take k steps)
     = map StepStarted (take k (map step_name steps))"
  by (simp add: take_map comp_def)

lemma run_tests_shape:
  assumes "run_tests d headless = Inr (r, t)"
  shows "\<exists>k1 k2 v1 v2. 1 \<le> k1 \<and> k1 \<le> 4 \<and> 1 \<le> k2 \<and> k2 \<le> 6
          \<and> v1 \<in> {PASSED, FAILED} \<and> v2 \<in> {PASSED, FAILED}
          \<and> events t = SessionCreated # map StepStarted (take k1 homepage_names)
                         @ [VerdictWritten ''Homepage Test'' v1]
                         @ map StepStarted (take k2 qa_jobs_names)
                         @ [VerdictWritten ''QA Jobs Test'' v2, SessionQuit]
          \<and> test_results t = [(''Homepage Test'', v1), (''QA Jobs Test'', v2)]"
proof -
  from assms obtain test where init: "InsiderWebsiteTest_init d headless = Inr test"
    by (auto simp: run_tests_def split: sum.splits)
  then have t0: "events test = [SessionCreated]" "test_results test = []"
    by (auto simp: InsiderWebsiteTest_init_def split: sum.splits)
  define t1 where "t1 = info ''Starting test execution...'' test"
  have t1: "events t1 = [SessionCreated]" "test_results t1 = []"
    using t0 by (simp_all add: t1_def info_frame)
  obtain ok2 t2 where hp: "run_steps ''Homepage Test'' (homepage_steps t1) t1 = (ok2, t2)"
    by (cases "run_steps ''Homepage Test'' (homepage_steps t1) t1")
  obtain ok3 t3 where qa: "run_steps ''QA Jobs Test'' (qa_jobs_steps t2) t2 = (ok3, t3)"
    by (cases "run_steps ''QA Jobs Test'' (qa_jobs_steps t2) t2")
  define t4 where "t4 = info (CHR 0x0A # ''Test Results:'') t3"
  define t5 where "t5 = fold (\<lambda>item. info (report_line item)) (test_results t4) t4"
  obtain r6 t6 where td: "teardown t5 = (r6, t6)"
    by (cases "teardown t5")
  have t: "events t = events t6 \<and> test_results t = test_results t6"
    using assms init hp qa td
    by (cases r6) (auto simp: run_tests_def Let_def test_homepage_loading_def
          test_qa_jobs_filtering_def t1_def t4_def t5_def info_frame)
  from run_steps_effect [OF hp] obtain k1 v1 where
    1: "k1 \<le> length (homepage_steps t1)" "1 \<le> k1" "v1 = (if ok2 then PASSED else FAILED)"
       "events t2 = events t1 @ map (\<lambda>step. StepStarted (step_name step)) (take k1 (homepage_steps t1))
                      @ [VerdictWritten ''Homepage Test'' v1]"
       "test_results t2 = setitem (test_results t1) ''Homepage Test'' v1"
    by (auto simp: homepage_steps_def)
  from run_steps_effect [OF qa] obtain k2 v2 where
    2: "k2 \<le> length (qa_jobs_steps t2)" "1 \<le> k2" "v2 = (if ok3 then PASSED else FAILED)"
       "events t3 = events t2 @ map (\<lambda>step. StepStarted (step_name step)) (take k2 (qa_jobs_steps t2))
                      @ [VerdictWritten ''QA Jobs Test'' v2]"
       "test_results t3 = setitem (test_results t2) ''QA Jobs Test'' v2"
    by (auto simp: qa_jobs_steps_def)
  have n1: "map (\<lambda>step. StepStarted (step_name step)) (take k1 (homepage_steps t1))
            = map StepStarted (take k1 homepage_names)"
    by (simp only: started_names step_names)
  have n2: "map (\<lambda>step. StepStarted (step_name step)) (take k2 (qa_jobs_steps t2))
            = map StepStarted (take k2 qa_jobs_names)"
    by (simp only: started_names step_names)
  have e: "events t6 = SessionCreated # map StepStarted (take k1 homepage_names)
                         @ [VerdictWritten ''Homepage Test'' v1]
                         @ map StepStarted (take k2 qa_jobs_names)
                         @ [VerdictWritten ''QA Jobs Test'' v2, SessionQuit]"
    using teardown_frame [OF td] 1(4) 2(4) t1
    by (simp add: t5_def t4_def fold_info_frame info_frame n1 n2)
  have res: "test_results t6 = [(''Homepage Test'', v1), (''QA Jobs Test'', v2)]"
    using teardown_frame [OF td] 1(5) 2(5) t1
    by (simp add: t5_def t4_def fold_info_frame info_frame)
  have l: "k1 \<le> 4" "k2 \<le> 6"
    using 1(1) 2(1) by (simp_all add: homepage_steps_def qa_jobs_steps_def)
  have v: "v1 \<in> {PASSED, FAILED}" "v2 \<in> {PASSED, FAILED}"
    using 1(3) 2(3) by auto
  from t e res l v 1(2) 2(2) show ?thesis by auto
qed

lemma run_tests_unfold:
  assumes "InsiderWebsiteTest_init d headless = Inr test"
  shows "\<exists>r t. run_tests d headless = Inr (r, t)
       \<and> events t = events (snd (test_qa_jobs_filtering (snd (test_homepage_loading
                        (info ''Starting test execution...'' test))))) @ [SessionQuit]
       \<and> test_results t = test_results (snd (test_qa_jobs_filtering (snd (test_homepage_loading
                        (info ''Starting test execution...'' test)))))"
proof -
  define t3 where "t3 = snd (test_qa_jobs_filtering (snd (test_homepage_loading
                        (info ''Starting test execution...'' test))))"
  define t4 where "t4 = info (CHR 0x0A # ''Test Results:'') t3"
  define t5 where "t5 = fold (\<lambda>item. info (report_line item)) (test_results t4) t4"
  obtain r6 t6 where td: "teardown t5 = (r6, t6)"
    by (cases "teardown t5")
  have 5: "events t5 = events t3" "test_results t5 = test_results t3"
    by (simp_all add: t5_def t4_def fold_info_frame info_frame)
  from teardown_frame [OF td] 5
  have 6: "events t6 = events t3 @ [SessionQuit]" "test_results t6 = test_results t3"
    by simp_all
  show ?thesis
  proof (cases r6)
    case (Inl e)
    with assms td have "run_tests d headless = Inr (Some e, t6)"
      by (simp add: run_tests_def Let_def t3_def t4_def t5_def)
    with 6 show ?thesis by (simp add: t3_def)
  next
    case (Inr u)
    with assms td have "run_tests d headless = Inr (None, info ''Test execution completed!'' t6)"
      by (simp add: run_tests_def Let_def t3_def t4_def t5_def)
    with 6 show ?thesis by (simp add: t3_def info_frame)
  qed
qed

lemma run_tests_creation:
  "(\<exists>test. InsiderWebsiteTest_init d headless = Inr test) \<longleftrightarrow> (\<exists>r t. run_tests d headless = Inr (r, t))"
  using run_tests_unfold [of d headless]
  by (cases "InsiderWebsiteTest_init d headless") (auto simp: run_tests_def)

lemma toy_init:
  "InsiderWebsiteTest_init (toy_driver landmark role_url) headless = Inr (toy_test landmark role_url)"
  by (simp add: InsiderWebsiteTest_init_def create_chrome_driver_def toy_driver_def toy_test_def
          toy_state_def)

lemma failing_step_effect:
  assumes pre: "steps_pass pre self = Some s1"
      and fails: "step_fails step s1"
  shows "run_steps key (pre @ step # post) self
           = (False, record_verdict key FAILED (snd (run_test_step step s1)))
       \<and> map_of (test_results (snd (run_steps key (pre @ step # post) self))) key = Some FAILED
       \<and> events (snd (run_steps key (pre @ step # post) self))
           = events self @ map (\<lambda>step. StepStarted (step_name step)) (pre @ [step])
               @ [VerdictWritten key FAILED]"
proof -
  obtain ok s2 where r: "run_test_step step s1 = (ok, s2)"
    by (cases "run_test_step step s1")
  with fails have nok: "\<not> ok" by (simp add: step_fails_iff)
  from run_steps_append [OF pre] r nok
  have 1: "run_steps key (pre @ step # post) self = (False, record_verdict key FAILED s2)"
    by simp
  from steps_pass_frame [OF pre] run_test_step_frame [OF r]
  have 2: "events s2 = events self @ map (\<lambda>step. StepStarted (step_name step)) (pre @ [step])"
    by simp
  from 1 2 r show ?thesis
    by (simp add: record_verdict_def map_of_setitem)
qed

subsection \<open>Cases and verdicts\<close>

text \<open>
  C4. For every test case and every sequence of steps: if some step reports failure
  (returns false or raises), the case's verdict is recorded as Failed and no step after
  the first failing step in that case executes: the case ends in the state the failing
  step left, whatever the later steps are, and the steps started are those up to it.
\<close>

theorem first_failure_ends_case:
  assumes pre: "steps_pass pre self = Some s1"
      and fails: "step_fails step s1"
  shows "run_steps key (pre @ step # post) self
           = (False, record_verdict key FAILED (snd (run_test_step step s1)))
       \<and> map_of (test_results (snd (run_steps key (pre @ step # post) self))) key = Some FAILED
       \<and> events (snd (run_steps key (pre @ step # post) self))
           = events self @ map (\<lambda>step. StepStarted (step_name step)) (pre @ [step])
               @ [VerdictWritten key FAILED]"
  using assms by (rule failing_step_effect)

theorem first_failure_ends_case_witness:
  "fst (test_homepage_loading (toy_test session_lost_at_second_wait [])) = False
   \<and> map_of (test_results (snd (test_homepage_loading (toy_test session_lost_at_second_wait []))))
        ''Homepage Test'' = Some FAILED
   \<and> events (snd (test_homepage_loading (toy_test session_lost_at_second_wait [])))
       = [SessionCreated, StepStarted ''navigate'', StepStarted ''verify'',
          VerdictWritten ''Homepage Test'' FAILED]"
proof -
  let ?T = "toy_test session_lost_at_second_wait []"
  let ?nav = "\<lparr>step_name = ''navigate'', step_function = HomePage_navigate (home_page ?T),
               step_description = ''Navigating to homepage''\<rparr>"
  let ?verify = "\<lparr>step_name = ''verify'', step_function = HomePage_is_loaded (home_page ?T),
               step_description = ''Verifying homepage loaded''\<rparr>"
  let ?post = "[\<lparr>step_name = ''company_menu'', step_function = click_company_menu (home_page ?T),
                 step_description = ''Clicking 'Company' menu''\<rparr>,
                \<lparr>step_name = ''careers_menu'', step_function = click_careers_menu (home_page ?T),
                 step_description = ''Clicking 'Careers' menu''\<rparr>]"
  have steps: "homepage_steps ?T = [?nav] @ ?verify # ?post"
    by (simp add: homepage_steps_def)
  have "fst (run_test_step ?nav ?T) = True" by code_simp
  then have pre: "steps_pass [?nav] ?T = Some (snd (run_test_step ?nav ?T))"
    by (simp add: case_prod_unfold)
  have fails: "step_fails ?verify (snd (run_test_step ?nav ?T))" by code_simp
  have ev: "events ?T = [SessionCreated]" by (simp add: toy_test_def)
  note th = first_failure_ends_case [OF pre fails, of "''Homepage Test''" ?post, folded steps]
  from conjunct1 [OF th]
  have a: "fst (run_steps ''Homepage Test'' (homepage_steps ?T) ?T) = False"
    by (simp del: run_steps.simps)
  note b = conjunct1 [OF conjunct2 [OF th]]
  from conjunct2 [OF conjunct2 [OF th]] ev
  have c: "events (snd (run_steps ''Homepage Test'' (homepage_steps ?T) ?T))
       = [SessionCreated, StepStarted ''navigate'', StepStarted ''verify'',
          VerdictWritten ''Homepage Test'' FAILED]"
    by (simp del: run_steps.simps)
  from a b c show ?thesis
    unfolding test_homepage_loading_def by blast
qed

subsection \<open>The run\<close>

text \<open>
  C5. An exception raised by a step's operation is caught in \<open>run_test_step\<close>, logged at
  ERROR with the step's description and the exception text, and treated as a false
  return: the containing case records Failed and the run goes on to the next test case
  instead of aborting. Stated for a step of the Homepage case (the case that has a next
  one): \<open>run_tests\<close> returns, the Homepage verdict is Failed, and the QA Jobs case starts
  its steps and records its own verdict.
\<close>

theorem step_exception_is_caught:
  assumes init: "InsiderWebsiteTest_init d headless = Inr test"
      and steps: "homepage_steps (info ''Starting test execution...'' test) = pre @ step # post"
      and pre: "steps_pass pre (info ''Starting test execution...'' test) = Some s1"
      and raises: "fst (step_function step
                     (world (info (''Executing step: '' @ step_description step) s1))) = Inl e"
  shows "fst (run_test_step step s1) = False
       \<and> last (log (world (snd (run_test_step step s1))))
           = (ERROR, ''Step failed with exception: '' @ step_description step @ [CHR 0x0A] @ str e)
       \<and> (\<exists>r t v n. run_tests d headless = Inr (r, t)
             \<and> test_results t = [(''Homepage Test'', FAILED), (''QA Jobs Test'', v)]
             \<and> events t = SessionCreated # map (\<lambda>step. StepStarted (step_name step)) (pre @ [step])
                 @ [VerdictWritten ''Homepage Test'' FAILED]
                 @ map StepStarted (take (Suc n) qa_jobs_names)
                 @ [VerdictWritten ''QA Jobs Test'' v, SessionQuit])"
proof -
  let ?t1 = "info ''Starting test execution...'' test"
  let ?s = "info (''Executing step: '' @ step_description step)
              (s1\<lparr>events := events s1 @ [StepStarted (step_name step)]\<rparr>)"
  have w: "world ?s = world (info (''Executing step: '' @ step_description step) s1)"
    by (simp add: info_def)
  obtain x w' where f: "step_function step (world ?s) = (x, w')"
    by (cases "step_function step (world ?s)")
  with raises w have x: "x = Inl e" by simp
  from f x have a: "fst (run_test_step step s1) = False"
    by (simp add: run_test_step_def Let_def)
  from f x have b: "last (log (world (snd (run_test_step step s1))))
           = (ERROR, ''Step failed with exception: '' @ step_description step @ [CHR 0x0A] @ str e)"
    by (simp add: run_test_step_def Let_def error_def logger_def)
  from raises have fails: "step_fails step s1" by (simp add: step_fails_def)
  have t1: "events ?t1 = [SessionCreated]" "test_results ?t1 = []"
    using init by (auto simp: InsiderWebsiteTest_init_def info_frame split: sum.splits)
  define t2 where "t2 = snd (test_homepage_loading ?t1)"
  note ff = failing_step_effect [OF pre fails, of "''Homepage Test''" post]
  have hp: "test_homepage_loading ?t1
              = (False, record_verdict ''Homepage Test'' FAILED (snd (run_test_step step s1)))"
    using conjunct1 [OF ff] steps by (simp add: test_homepage_loading_def)
  have hp2: "events t2 = events ?t1 @ map (\<lambda>step. StepStarted (step_name step)) (pre @ [step])
                      @ [VerdictWritten ''Homepage Test'' FAILED]"
    using conjunct2 [OF conjunct2 [OF ff]] steps by (simp add: test_homepage_loading_def t2_def)
  obtain ok s2 where r: "run_test_step step s1 = (ok, s2)"
    by (cases "run_test_step step s1")
  from steps_pass_frame [OF pre] run_test_step_frame [OF r] hp r t1
  have res2: "test_results t2 = [(''Homepage Test'', FAILED)]"
    by (simp add: t2_def record_verdict_def)
  obtain ok3 t3 where qa: "run_steps ''QA Jobs Test'' (qa_jobs_steps t2) t2 = (ok3, t3)"
    by (cases "run_steps ''QA Jobs Test'' (qa_jobs_steps t2) t2")
  from run_steps_effect [OF qa] obtain k v where
    k: "1 \<le> k"
       "events t3 = events t2 @ map (\<lambda>step. StepStarted (step_name step)) (take k (qa_jobs_steps t2))
                      @ [VerdictWritten ''QA Jobs Test'' v]"
       "test_results t3 = setitem (test_results t2) ''QA Jobs Test'' v"
    by (auto simp: qa_jobs_steps_def)
  from k(1) obtain n where n: "k = Suc n" by (cases k) auto
  have names: "map (\<lambda>step. StepStarted (step_name step)) (take k (qa_jobs_steps t2))
            = map StepStarted (take k qa_jobs_names)"
    by (simp only: started_names step_names)
  from run_tests_unfold [OF init] obtain r' t where
    t: "run_tests d headless = Inr (r', t)"
       "events t = events (snd (test_qa_jobs_filtering t2)) @ [SessionQuit]"
       "test_results t = test_results (snd (test_qa_jobs_filtering t2))"
    unfolding t2_def by blast
  from qa have q3: "snd (test_qa_jobs_filtering t2) = t3"
    by (simp add: test_qa_jobs_filtering_def)
  have "test_results t = [(''Homepage Test'', FAILED), (''QA Jobs Test'', v)]"
    using t(3) q3 k(3) res2 by simp
  moreover have "events t = SessionCreated # map (\<lambda>step. StepStarted (step_name step)) (pre @ [step])
                 @ [VerdictWritten ''Homepage Test'' FAILED]
                 @ map StepStarted (take (Suc n) qa_jobs_names)
                 @ [VerdictWritten ''QA Jobs Test'' v, SessionQuit]"
    using t(2) q3 k(2) hp2 t1 names n by simp
  ultimately show ?thesis using a b t(1) by blast
qed

theorem step_exception_is_caught_witness:
  "\<exists>r t v n. run_tests (toy_driver session_lost_at_second_wait []) False = Inr (r, t)
       \<and> test_results t = [(''Homepage Test'', FAILED), (''QA Jobs Test'', v)]
       \<and> events t = [SessionCreated, StepStarted ''navigate'', StepStarted ''verify'',
                      VerdictWritten ''Homepage Test'' FAILED]
                     @ map StepStarted (take (Suc n) qa_jobs_names)
                     @ [VerdictWritten ''QA Jobs Test'' v, SessionQuit]"
proof -
  let ?D = "toy_driver session_lost_at_second_wait []"
  let ?T = "toy_test session_lost_at_second_wait []"
  let ?T1 = "info ''Starting test execution...'' ?T"
  let ?nav = "\<lparr>step_name = ''navigate'', step_function = HomePage_navigate (home_page ?T1),
               step_description = ''Navigating to homepage''\<rparr>"
  let ?verify = "\<lparr>step_name = ''verify'', step_function = HomePage_is_loaded (home_page ?T1),
               step_description = ''Verifying homepage loaded''\<rparr>"
  let ?post = "[\<lparr>step_name = ''company_menu'', step_function = click_company_menu (home_page ?T1),
                 step_description = ''Clicking 'Company' menu''\<rparr>,
                \<lparr>step_name = ''careers_menu'', step_function = click_careers_menu (home_page ?T1),
                 step_description = ''Clicking 'Careers' menu''\<rparr>]"
  have init: "InsiderWebsiteTest_init ?D False = Inr ?T"
    by (simp add: InsiderWebsiteTest_init_def create_chrome_driver_def toy_driver_def toy_test_def
          toy_state_def)
  have steps: "homepage_steps ?T1 = [?nav] @ ?verify # ?post"
    by (simp add: homepage_steps_def)
  have "fst (run_test_step ?nav ?T1) = True" by code_simp
  then have pre: "steps_pass [?nav] ?T1 = Some (snd (run_test_step ?nav ?T1))"
    by (simp add: case_prod_unfold)
  have raises: "fst (step_function ?verify
                  (world (info (''Executing step: '' @ step_description ?verify)
                            (snd (run_test_step ?nav ?T1)))))
                = Inl (WebDriverException ''invalid session id'')"
    by code_simp
  from step_exception_is_caught [OF init steps pre raises]
  show ?thesis by simp
qed



text \<open>
  C7. After a run, the verdict mapping contains exactly one entry per executed test
  case, written once per case, and the mapping's insertion order is the order in which
  the cases executed.
\<close>

theorem one_verdict_per_case:
  assumes "run_tests d headless = Inr (r, t)"
  shows "\<exists>v1 v2. test_results t = [(''Homepage Test'', v1), (''QA Jobs Test'', v2)]
          \<and> filter is_verdict_write (events t)
               = [VerdictWritten ''Homepage Test'' v1, VerdictWritten ''QA Jobs Test'' v2]
          \<and> (\<exists>k1 k2. 1 \<le> k1 \<and> 1 \<le> k2
               \<and> events t = SessionCreated # map StepStarted (take k1 homepage_names)
                         @ [VerdictWritten ''Homepage Test'' v1]
                         @ map StepStarted (take k2 qa_jobs_names)
                         @ [VerdictWritten ''QA Jobs Test'' v2, SessionQuit])"
proof -
  from run_tests_shape [OF assms] obtain k1 k2 v1 v2 where
    s: "1 \<le> k1" "1 \<le> k2"
       "events t = SessionCreated # map StepStarted (take k1 homepage_names)
                         @ [VerdictWritten ''Homepage Test'' v1]
                         @ map StepStarted (take k2 qa_jobs_names)
                         @ [VerdictWritten ''QA Jobs Test'' v2, SessionQuit]"
       "test_results t = [(''Homepage Test'', v1), (''QA Jobs Test'', v2)]"
    by auto
  have "filter is_verdict_write (map StepStarted xs) = []" for xs
    by (induction xs) simp_all
  with s(3) have "filter is_verdict_write (events t)
               = [VerdictWritten ''Homepage Test'' v1, VerdictWritten ''QA Jobs Test'' v2]"
    by simp
  with s show ?thesis by blast
qed

theorem one_verdict_per_case_witness:
  "\<exists>r t. run_tests (toy_driver always_visible ''https://jobs.lever.co/useinsider/1'') False = Inr (r, t)
     \<and> test_results t = [(''Homepage Test'', PASSED), (''QA Jobs Test'', PASSED)]
     \<and> filter is_verdict_write (events t)
          = [VerdictWritten ''Homepage Test'' PASSED, VerdictWritten ''QA Jobs Test'' PASSED]"
proof -
  let ?D = "toy_driver always_visible ''https://jobs.lever.co/useinsider/1''"
  from toy_init [of always_visible "''https://jobs.lever.co/useinsider/1''" False]
    run_tests_creation [of ?D False]
  obtain r t where rt: "run_tests ?D False = Inr (r, t)" by blast
  have "test_results (snd (projr (run_tests ?D False)))
        = [(''Homepage Test'', PASSED), (''QA Jobs Test'', PASSED)]"
    by code_simp
  with rt have res: "test_results t = [(''Homepage Test'', PASSED), (''QA Jobs Test'', PASSED)]"
    by simp
  from one_verdict_per_case [OF rt] res
  have "filter is_verdict_write (events t)
          = [VerdictWritten ''Homepage Test'' PASSED, VerdictWritten ''QA Jobs Test'' PASSED]"
    by auto
  with rt res show ?thesis by blast
qed

text \<open>
  C9. Although \<open>TestResult\<close> defines \<open>SKIPPED\<close>, no run records it: every entry ever
  written to the verdict mapping is \<open>PASSED\<close> or \<open>FAILED\<close>.
\<close>

theorem skipped_never_recorded:
  assumes "run_tests d headless = Inr (r, t)"
  shows "SKIPPED \<notin> snd ` set (test_results t)
       \<and> (\<forall>key. VerdictWritten key SKIPPED \<notin> set (events t))
       \<and> snd ` set (test_results t) \<subseteq> {PASSED, FAILED}"
proof -
  from run_tests_shape [OF assms] obtain k1 k2 v1 v2 where
    s: "v1 \<in> {PASSED, FAILED}" "v2 \<in> {PASSED, FAILED}"
       "events t = SessionCreated # map StepStarted (take k1 homepage_names)
                         @ [VerdictWritten ''Homepage Test'' v1]
                         @ map StepStarted (take k2 qa_jobs_names)
                         @ [VerdictWritten ''QA Jobs Test'' v2, SessionQuit]"
       "test_results t = [(''Homepage Test'', v1), (''QA Jobs Test'', v2)]"
    by auto
  from s(1,2,4) have a: "snd ` set (test_results t) \<subseteq> {PASSED, FAILED}" by auto
  then have b: "SKIPPED \<notin> snd ` set (test_results t)" by auto
  from s(1,2,3) have c: "\<forall>key. VerdictWritten key SKIPPED \<notin> set (events t)" by auto
  from a b c show ?thesis by blast
qed

theorem skipped_never_recorded_witness:
  "\<exists>r t. run_tests (toy_driver never_visible ''https://example.com/'') False = Inr (r, t)
     \<and> test_results t = [(''Homepage Test'', FAILED), (''QA Jobs Test'', FAILED)]
     \<and> SKIPPED \<notin> snd ` set (test_results t)"
proof -
  let ?D = "toy_driver never_visible ''https://example.com/''"
  from toy_init [of never_visible "''https://example.com/''" False]
    run_tests_creation [of ?D False]
  obtain r t where rt: "run_tests ?D False = Inr (r, t)" by blast
  have "test_results (snd (projr (run_tests ?D False)))
        = [(''Homepage Test'', FAILED), (''QA Jobs Test'', FAILED)]"
    by code_simp
  with rt have res: "test_results t = [(''Homepage Test'', FAILED), (''QA Jobs Test'', FAILED)]"
    by simp
  from skipped_never_recorded [OF rt]
  have "SKIPPED \<notin> snd ` set (test_results t)" by blast
  with rt res show ?thesis by blast
qed

subsection \<open>view_first_role and navigate\<close>

text \<open>
  C2. The claim is that \<open>view_first_role\<close> leaves the original browsing context active on
  every exit path. On the path where the address of the new tab never contains
  \<open>jobs.lever.co\<close> the code returns false without switching back: the new tab stays
  the active one and stays open.
\<close>

theorem view_first_role_leaves_new_context:
  "focused (remote (toy_state 0)) = ''tab-1''
   \<and> fst (view_first_role (BasePage_init (toy_driver always_visible ''https://example.com/apply''))
           (toy_state 0)) = Inr False
   \<and> focused (remote (snd (view_first_role
           (BasePage_init (toy_driver always_visible ''https://example.com/apply'')) (toy_state 0))))
       = ''tab-2''
   \<and> tabs (remote (snd (view_first_role
           (BasePage_init (toy_driver always_visible ''https://example.com/apply'')) (toy_state 0))))
       = [(''tab-1'', ''about:blank''), (''tab-2'', ''https://example.com/apply'')]"
  by code_simp

text \<open>The success path of the same method does switch back, after closing the new tab.\<close>

lemma view_first_role_success_restores:
  "fst (view_first_role (BasePage_init (toy_driver always_visible ''https://jobs.lever.co/useinsider/1''))
           (toy_state 0)) = Inr True
   \<and> focused (remote (snd (view_first_role
           (BasePage_init (toy_driver always_visible ''https://jobs.lever.co/useinsider/1'')) (toy_state 0))))
       = ''tab-1''
   \<and> tabs (remote (snd (view_first_role
           (BasePage_init (toy_driver always_visible ''https://jobs.lever.co/useinsider/1'')) (toy_state 0))))
       = [(''tab-1'', ''about:blank'')]"
  by code_simp

text \<open>
  C10. \<open>CareersPage.navigate\<close> returns true whenever the driver's navigation call returns
  without raising, and does nothing after that call: no check that the page loaded.
  \<open>HomePage.navigate\<close> returns what its \<open>is_loaded\<close> check returns after navigating.
\<close>

theorem careers_navigate_skips_verification:
  "(fst (drv_get (driver self) CareersPage_URL (remote s)) = Inr ()
      \<longrightarrow> CareersPage_navigate self s
            = (Inr True, s\<lparr>remote := snd (drv_get (driver self) CareersPage_URL (remote s))\<rparr>))
   \<and> (drv_get (driver home) HomePage_URL (remote s) = (Inr (), b)
       \<and> HomePage_is_loaded home (s\<lparr>remote := b\<rparr>) = (Inr v, s1)
      \<longrightarrow> HomePage_navigate home s = (Inr v, s1))"
proof (intro conjI impI)
  assume a: "fst (drv_get (driver self) CareersPage_URL (remote s)) = Inr ()"
  obtain r b' where g: "drv_get (driver self) CareersPage_URL (remote s) = (r, b')"
    by (cases "drv_get (driver self) CareersPage_URL (remote s)")
  with a show "CareersPage_navigate self s
            = (Inr True, s\<lparr>remote := snd (drv_get (driver self) CareersPage_URL (remote s))\<rparr>)"
    by (simp add: CareersPage_navigate_def try_except_def and_then_def call_def ret_def)
next
  assume "drv_get (driver home) HomePage_URL (remote s) = (Inr (), b)
       \<and> HomePage_is_loaded home (s\<lparr>remote := b\<rparr>) = (Inr v, s1)"
  then show "HomePage_navigate home s = (Inr v, s1)"
    by (simp add: HomePage_navigate_def try_except_def and_then_def call_def)
qed

theorem careers_navigate_skips_verification_witness:
  "fst (CareersPage_navigate (BasePage_init (toy_driver never_visible [])) (toy_state 0)) = Inr True
   \<and> fst (HomePage_navigate (HomePage_init (toy_driver never_visible [])) (toy_state 0)) = Inr False
   \<and> fst (HomePage_is_loaded (HomePage_init (toy_driver never_visible []))
            ((toy_state 0)\<lparr>remote := snd (drv_get (toy_driver never_visible []) HomePage_URL
                                               (remote (toy_state 0)))\<rparr>)) = Inr False"
proof -
  let ?c = "BasePage_init (toy_driver never_visible [])"
  let ?h = "HomePage_init (toy_driver never_visible [])"
  let ?s = "toy_state 0"
  let ?b = "snd (drv_get (toy_driver never_visible []) HomePage_URL (remote ?s))"
  let ?s1 = "snd (HomePage_is_loaded ?h (?s\<lparr>remote := ?b\<rparr>))"
  have g1: "fst (drv_get (driver ?c) CareersPage_URL (remote ?s)) = Inr ()"
    by (simp add: BasePage_init_def toy_driver_def)
  have g2: "drv_get (driver ?h) HomePage_URL (remote ?s) = (Inr (), ?b)"
    by (simp add: BasePage_init_def HomePage_init_def toy_driver_def)
  have l: "fst (HomePage_is_loaded ?h (?s\<lparr>remote := ?b\<rparr>)) = Inr False"
    by code_simp
  then have l2: "HomePage_is_loaded ?h (?s\<lparr>remote := ?b\<rparr>) = (Inr False, ?s1)"
    by (simp add: prod_eq_iff)
  from careers_navigate_skips_verification [of ?c ?s ?h ?b False ?s1] g1 g2 l2
  have "fst (CareersPage_navigate ?c ?s) = Inr True" "HomePage_navigate ?h ?s = (Inr False, ?s1)"
    by simp_all
  with l show ?thesis by simp
qed

end
